theory Spec2Isabelle
  imports Main "HOL-Library.List_Lexorder"
begin

section \<open>Python strings\<close>

text \<open>
  A Python \<open>str\<close> is a sequence of Unicode code points, so a string is a list of
  natural numbers here. \<open>ascii\<close> turns an ASCII literal into that representation;
  the Cyrillic literals of the source are written as their code points.
\<close>

type_synonym ustr = "nat list"

definition ascii :: "string \<Rightarrow> ustr" where
  "ascii s = map of_char s"

text \<open>
  The Unicode character database is not part of the repository. The ASCII range is
  written out below; for the code points from 128 on, the database is a parameter:
  \<open>decimal\<close> gives the value of a decimal digit (what \<open>\d\<close> matches and \<open>int\<close>
  reads), \<open>alnum\<close> is \<open>str.isalnum\<close> on one code point, and \<open>lower\<close> is
  \<open>str.lower\<close> on a whole string (it is context sensitive, so it is not given per
  code point).
\<close>

record ucd =
  decimal :: "nat \<Rightarrow> nat option"
  alnum :: "nat \<Rightarrow> bool"
  lower :: "ustr \<Rightarrow> ustr"

definition digit_val :: "ucd \<Rightarrow> nat \<Rightarrow> nat option" where
  "digit_val U c =
     (if 48 \<le> c \<and> c \<le> 57 then Some (c - 48)
      else if c < 128 then None
      else decimal U c)"

definition is_digit :: "ucd \<Rightarrow> nat \<Rightarrow> bool" where
  "is_digit U c = (digit_val U c \<noteq> None)"

definition is_word :: "ucd \<Rightarrow> nat \<Rightarrow> bool" where
  \<comment> \<open>\<open>\w\<close> of a str pattern: alphanumeric or underscore\<close>
  "is_word U c =
     (if c < 128
      then (48 \<le> c \<and> c \<le> 57) \<or> (65 \<le> c \<and> c \<le> 90) \<or> (97 \<le> c \<and> c \<le> 122) \<or> c = 95
      else alnum U c)"

definition isspace :: "nat \<Rightarrow> bool" where
  \<comment> \<open>the code points \<open>str.strip\<close> removes\<close>
  "isspace c =
     ((9 \<le> c \<and> c \<le> 13) \<or> (28 \<le> c \<and> c \<le> 32) \<or> c = 133 \<or> c = 160 \<or> c = 5760
      \<or> (8192 \<le> c \<and> c \<le> 8202) \<or> c = 8232 \<or> c = 8233 \<or> c = 8239 \<or> c = 8287
      \<or> c = 12288)"

definition strip :: "ustr \<Rightarrow> ustr" where
  "strip s = rev (dropWhile isspace (rev (dropWhile isspace s)))"

fun split_on :: "nat \<Rightarrow> ustr \<Rightarrow> ustr list" where
  \<comment> \<open>\<open>s.split(sep)\<close> for a separator of one code point\<close>
  "split_on sep [] = [[]]"
| "split_on sep (c # cs) =
     (if c = sep then [] # split_on sep cs
      else (case split_on sep cs of
              [] \<Rightarrow> [[c]]
            | w # ws \<Rightarrow> (c # w) # ws))"

fun join :: "ustr \<Rightarrow> ustr list \<Rightarrow> ustr" where
  \<comment> \<open>\<open>sep.join(parts)\<close>\<close>
  "join sep [] = []"
| "join sep [p] = p"
| "join sep (p # q # ps) = p @ sep @ join sep (q # ps)"

fun startswith :: "ustr \<Rightarrow> ustr \<Rightarrow> bool" where
  \<comment> \<open>\<open>s.startswith(p)\<close>, the string first\<close>
  "startswith s [] = True"
| "startswith [] (p # ps) = False"
| "startswith (c # cs) (p # ps) = (c = p \<and> startswith cs ps)"

fun contains :: "ustr \<Rightarrow> ustr \<Rightarrow> bool" where
  \<comment> \<open>\<open>p in s\<close>, the string first\<close>
  "contains [] p = (p = [])"
| "contains (c # cs) p = (startswith (c # cs) p \<or> contains cs p)"

definition is_linebreak :: "nat \<Rightarrow> bool" where
  \<comment> \<open>the line boundaries of \<open>str.splitlines\<close>\<close>
  "is_linebreak c =
     ((10 \<le> c \<and> c \<le> 13) \<or> (28 \<le> c \<and> c \<le> 30) \<or> c = 133 \<or> c = 8232 \<or> c = 8233)"

fun splitlines_from :: "ustr \<Rightarrow> ustr \<Rightarrow> ustr list" where
  \<comment> \<open>the first argument is the line read so far, reversed\<close>
  "splitlines_from acc [] = (if acc = [] then [] else [rev acc])"
| "splitlines_from acc [c] =
     (if is_linebreak c then [rev acc] else [rev (c # acc)])"
| "splitlines_from acc (c # d # cs) =
     (if c = 13 \<and> d = 10 then rev acc # splitlines_from [] cs
      else if is_linebreak c then rev acc # splitlines_from [] (d # cs)
      else splitlines_from (c # acc) (d # cs))"

definition splitlines :: "ustr \<Rightarrow> ustr list" where
  "splitlines s = splitlines_from [] s"

fun show_nat :: "nat \<Rightarrow> ustr" where
  \<comment> \<open>\<open>str(n)\<close> for a non-negative int: decimal, no leading zero\<close>
  "show_nat n = (if n < 10 then [48 + n] else show_nat (n div 10) @ [48 + n mod 10])"

declare show_nat.simps [simp del]

definition show_int :: "int \<Rightarrow> ustr" where
  "show_int i = (if i < 0 then 45 # show_nat (nat (- i)) else show_nat (nat i))"

fun digits_value :: "ucd \<Rightarrow> nat \<Rightarrow> ustr \<Rightarrow> nat" where
  \<comment> \<open>the number a run of decimal digits denotes, most significant first\<close>
  "digits_value U acc [] = acc"
| "digits_value U acc (c # cs) =
     digits_value U (10 * acc + (case digit_val U c of Some d \<Rightarrow> d | None \<Rightarrow> 0)) cs"

fun int_digits :: "ucd \<Rightarrow> bool \<Rightarrow> nat \<Rightarrow> ustr \<Rightarrow> nat option" where
  \<comment> \<open>the digits of an \<open>int\<close> literal: decimal digits with single underscores between
      them; the flag says that the code point before was a digit\<close>
  "int_digits U prev acc [] = (if prev then Some acc else None)"
| "int_digits U prev acc (c # cs) =
     (case digit_val U c of
        Some d \<Rightarrow> int_digits U True (10 * acc + d) cs
      | None \<Rightarrow> if c = 95 \<and> prev then int_digits U False acc cs else None)"

definition int_space :: "nat \<Rightarrow> bool" where
  \<comment> \<open>the white space \<open>int\<close> accepts around a literal: that of \<open>str.strip\<close> without the
      four separator controls 28 to 31\<close>
  "int_space c = (isspace c \<and> \<not> (28 \<le> c \<and> c \<le> 31))"

definition py_int :: "ucd \<Rightarrow> ustr \<Rightarrow> int option" where
  \<comment> \<open>\<open>int(s)\<close> for a str; \<open>None\<close> is ValueError\<close>
  "py_int U s =
     (case rev (dropWhile int_space (rev (dropWhile int_space s))) of
        [] \<Rightarrow> None
      | c # cs \<Rightarrow>
          if c = 45 then map_option (\<lambda>n. - int n) (int_digits U False 0 cs)
          else if c = 43 then map_option int (int_digits U False 0 cs)
          else map_option int (int_digits U False 0 (c # cs)))"

text \<open>
  Integers are unbounded, as in Python. The interpreter's optional limit on the number
  of digits that \<open>int\<close> and \<open>str\<close> convert is not modelled.
\<close>

section \<open>Errors, collaborators and display instructions\<close>

text \<open>
  An exception of the source is a value: \<open>ToolError\<close> stands for whatever an external
  tool or library raises (a missing binary, a non-zero exit status, a corrupt file).
  All of them derive from \<open>Exception\<close>, which is what the source's handlers catch.
\<close>

datatype exn = KeyError | IndexError | ValueError | ToolError ustr

text \<open>
  The external collaborators: the text extraction tool (\<open>pdftotext -layout path -\<close>, run
  with \<open>check=True\<close>; the result is its standard output), the metadata tool
  (\<open>pdfinfo path\<close>), the rasteriser (\<open>convert_from_path\<close> with the path, the dpi, the
  first and the last page and the image format) and the file system test
  \<open>Path.exists\<close>.
\<close>

record 'img world =
  unicode :: ucd
  run_pdftotext :: "ustr \<Rightarrow> exn + ustr"
  run_pdfinfo :: "ustr \<Rightarrow> exn + ustr"
  convert_from_path :: "ustr \<Rightarrow> int \<Rightarrow> int \<Rightarrow> int \<Rightarrow> ustr \<Rightarrow> exn + 'img list"
  path_exists :: "ustr \<Rightarrow> bool"

text \<open>
  What a render pass shows, in order. \<open>Markdown\<close> carries the text given to
  \<open>st.markdown\<close>. The instructions of the PDF column carry their data:
  \<open>Pdf_not_found path\<close> is the \<open>st.error\<close> message, \<open>Page_caption page total\<close> the
  caption above the buttons, \<open>Page_image img path page total\<close> the \<open>st.image\<close> call
  with its caption, \<open>Render_warning\<close> the \<open>st.warning\<close> that rendering failed and
  \<open>Pdf_link path\<close> the fallback link to the file.
\<close>

datatype 'img display =
    Markdown ustr
  | Pdf_not_found ustr
  | Page_caption int int
  | Page_image 'img ustr int int
  | Render_warning
  | Pdf_link ustr

section \<open>Section locator\<close>

definition is_word_opt :: "ucd \<Rightarrow> nat option \<Rightarrow> bool" where
  \<comment> \<open>outside the text there is no word character\<close>
  "is_word_opt U c = (case c of None \<Rightarrow> False | Some x \<Rightarrow> is_word U x)"

definition word_boundary :: "ucd \<Rightarrow> nat option \<Rightarrow> nat option \<Rightarrow> bool" where
  \<comment> \<open>\<open>\b\<close> between the code point \<open>prev\<close> and the code point \<open>next\<close>\<close>
  "word_boundary U prev next = (is_word_opt U prev \<noteq> is_word_opt U next)"

definition marker_at :: "ucd \<Rightarrow> nat option \<Rightarrow> ustr \<Rightarrow> bool" where
  \<comment> \<open>\<open>\b4[.,]1\b\<close> matches at the start of the text, which follows \<open>prev\<close>\<close>
  "marker_at U prev s =
     (case s of
        a # b # c # rest \<Rightarrow>
          word_boundary U prev (Some a) \<and> a = 52 \<and> (b = 46 \<or> b = 44) \<and> c = 49
          \<and> word_boundary U (Some c) (case rest of [] \<Rightarrow> None | d # _ \<Rightarrow> Some d)
      | _ \<Rightarrow> False)"

fun marker_search_from :: "ucd \<Rightarrow> nat option \<Rightarrow> ustr \<Rightarrow> bool" where
  "marker_search_from U prev [] = False"
| "marker_search_from U prev (c # cs) =
     (marker_at U prev (c # cs) \<or> marker_search_from U (Some c) cs)"

definition marker_search :: "ucd \<Rightarrow> ustr \<Rightarrow> bool" where
  \<comment> \<open>\<open>marker.search(text)\<close> finds a match\<close>
  "marker_search U text = marker_search_from U None text"

definition marker_occurs :: "ucd \<Rightarrow> nat option \<Rightarrow> ustr \<Rightarrow> ustr \<Rightarrow> nat \<Rightarrow> ustr \<Rightarrow> bool" where
  \<comment> \<open>the text, which follows \<open>prev\<close>, is \<open>pre\<close>, then 4, a separator and 1, then \<open>post\<close>,
      with no word character next to the marker on either side\<close>
  "marker_occurs U prev s pre sep post =
     (s = pre @ [52, sep, 49] @ post \<and> (sep = 46 \<or> sep = 44)
      \<and> \<not> is_word_opt U (if pre = [] then prev else Some (last pre))
      \<and> \<not> is_word_opt U (if post = [] then None else Some (hd post)))"

fun scan_pages :: "ucd \<Rightarrow> int \<Rightarrow> ustr list \<Rightarrow> int" where
  \<comment> \<open>the loop over \<open>enumerate(pages, start=idx)\<close> and the \<open>return 1\<close> after it\<close>
  "scan_pages U idx [] = 1"
| "scan_pages U idx (text # pages) =
     (if marker_search U text then idx else scan_pages U (idx + 1) pages)"

definition find_section_page :: "'img world \<Rightarrow> ustr \<Rightarrow> ustr \<Rightarrow> int" where
  \<comment> \<open>the argument \<open>section\<close> is not used by the source\<close>
  "find_section_page W pdf_path section =
     (case run_pdftotext W pdf_path of
        Inl e \<Rightarrow> 1
      | Inr stdout \<Rightarrow> scan_pages (unicode W) 1 (split_on 12 stdout))"

section \<open>Page renderer\<close>

definition render_pdf_page_as_image :: "'img world \<Rightarrow> ustr \<Rightarrow> int \<Rightarrow> exn + 'img option" where
  "render_pdf_page_as_image W pdf_path page =
     (case convert_from_path W pdf_path 120 page page (ascii ''png'') of
        Inl e \<Rightarrow> Inl e
      | Inr images \<Rightarrow> Inr (case images of [] \<Rightarrow> None | img # _ \<Rightarrow> Some img))"

section \<open>Page count\<close>

fun split_once :: "nat \<Rightarrow> ustr \<Rightarrow> ustr list" where
  \<comment> \<open>\<open>s.split(sep, 1)\<close>\<close>
  "split_once sep [] = [[]]"
| "split_once sep (c # cs) =
     (if c = sep then [[], cs]
      else (case split_once sep cs of
              [] \<Rightarrow> [[c]]
            | w # ws \<Rightarrow> (c # w) # ws))"

definition index :: "'a list \<Rightarrow> nat \<Rightarrow> exn + 'a" where
  \<comment> \<open>\<open>xs[i]\<close> for \<open>i \<ge> 0\<close>\<close>
  "index xs i = (if i < length xs then Inr (xs ! i) else Inl IndexError)"

fun pages_line :: "ucd \<Rightarrow> ustr list \<Rightarrow> exn + int option" where
  \<comment> \<open>the loop over the lines: \<open>Inr (Some n)\<close> is \<open>return n\<close>, \<open>Inr None\<close> is the end of
      the loop, \<open>Inl\<close> an exception\<close>
  "pages_line U [] = Inr None"
| "pages_line U (line # lines) =
     (if startswith (lower U line) (ascii ''pages:'')
      then (case index (split_once 58 line) 1 of
              Inl e \<Rightarrow> Inl e
            | Inr field \<Rightarrow>
                (case py_int U (strip field) of
                   None \<Rightarrow> Inl ValueError
                 | Some n \<Rightarrow> Inr (Some (max 1 n))))
      else pages_line U lines)"

definition get_pdf_page_count :: "'img world \<Rightarrow> ustr \<Rightarrow> int" where
  "get_pdf_page_count W pdf_path =
     (case run_pdfinfo W pdf_path of
        Inl e \<Rightarrow> 1
      | Inr stdout \<Rightarrow>
          (case pages_line (unicode W) (splitlines stdout) of
             Inl e \<Rightarrow> 1
           | Inr None \<Rightarrow> 1
           | Inr (Some n) \<Rightarrow> n))"

section \<open>Pagination state\<close>

text \<open>
  \<open>st.session_state\<close> maps a key to the page stored under it. \<open>clicked\<close> says for the
  key of each button whether \<open>st.button\<close> returns true in this pass.
\<close>

type_synonym session_state = "ustr \<rightharpoonup> int"

definition render_page_control ::
  "int \<Rightarrow> ustr \<Rightarrow> ustr \<Rightarrow> bool \<Rightarrow> (ustr \<Rightarrow> bool) \<Rightarrow> session_state
     \<Rightarrow> exn + (session_state \<times> 'img display list)" where
  "render_page_control total_pages page_state_key key_prefix show_label clicked st =
     (case st page_state_key of
        None \<Rightarrow> Inl KeyError
      | Some page0 \<Rightarrow>
          let shown = (if show_label then [Page_caption page0 total_pages] else []);
              page1 = (if clicked (key_prefix @ ascii ''_prev'') then max 1 (page0 - 1) else page0);
              page2 = (if clicked (key_prefix @ ascii ''_next'') then min total_pages (page1 + 1)
                       else page1)
          in Inr (st(page_state_key \<mapsto> min (max page2 1) total_pages), shown))"

definition render_pdf ::
  "'img world \<Rightarrow> ustr \<Rightarrow> ustr \<Rightarrow> (ustr \<Rightarrow> bool) \<Rightarrow> session_state
     \<Rightarrow> exn + (session_state \<times> 'img display list)" where
  "render_pdf W pdf_path state_key clicked st =
     (if \<not> path_exists W pdf_path then Inr (st, [Pdf_not_found pdf_path])
      else
        (let total_pages = get_pdf_page_count W pdf_path;
             start_page = find_section_page W pdf_path (ascii ''4.1'');
             start_page = min (max start_page 1) total_pages;
             page_state_key = ascii ''pdf_page_'' @ state_key;
             st1 = (if st page_state_key = None then st(page_state_key \<mapsto> start_page) else st)
         in (case render_page_control total_pages page_state_key (ascii ''top_'' @ state_key)
                    True clicked st1 of
               Inl e \<Rightarrow> Inl e
             | Inr (st2, out2) \<Rightarrow>
                 (case st2 page_state_key of
                    None \<Rightarrow> Inl KeyError
                  | Some current_page \<Rightarrow>
                      (let fallback = (\<lambda>shown. Inr (st2, shown @ [Render_warning, Pdf_link pdf_path]))
                       in (case render_pdf_page_as_image W pdf_path current_page of
                             Inl e \<Rightarrow> fallback out2
                           | Inr None \<Rightarrow> fallback out2
                           | Inr (Some img) \<Rightarrow>
                               (let out3 = out2 @ [Page_image img pdf_path current_page total_pages]
                                in (case render_page_control total_pages page_state_key
                                           (ascii ''bottom_'' @ state_key) False clicked st2 of
                                      Inl e \<Rightarrow> fallback out3
                                    | Inr (st4, out4) \<Rightarrow> Inr (st4, out3 @ out4)))))))))"

text \<open>
  The framework runs the script again after every user action and keeps the session
  state between the passes. A session is the list of the passes' button states.
\<close>

fun render_pdf_passes ::
  "'img world \<Rightarrow> ustr \<Rightarrow> ustr \<Rightarrow> (ustr \<Rightarrow> bool) list \<Rightarrow> session_state \<Rightarrow> exn + session_state" where
  "render_pdf_passes W pdf_path state_key [] st = Inr st"
| "render_pdf_passes W pdf_path state_key (clicked # rest) st =
     (case render_pdf W pdf_path state_key clicked st of
        Inl e \<Rightarrow> Inl e
      | Inr (st', shown) \<Rightarrow> render_pdf_passes W pdf_path state_key rest st')"

section \<open>Structured record renderer\<close>

definition KEY_LABELS_RU :: "(ustr \<times> ustr) list" where
  \<comment> \<open>the Russian labels of the keys, as code points\<close>
  "KEY_LABELS_RU =
     [
      (ascii ''indications'', [1055, 1086, 1082, 1072, 1079, 1072, 1085, 1080, 1103]),
      (ascii ''dosage'',
        [1057, 1093, 1077, 1084, 1099, 32, 1076, 1086, 1079, 1080, 1088, 1086, 1074, 1072,
         1085, 1080, 1103]),
      (ascii ''tags'', [1058, 1077, 1075, 1080]),
      (ascii ''indication'', [1057, 1093, 1077, 1084, 1072]),
      (ascii ''startDosage'',
        [1053, 1072, 1095, 1072, 1083, 1100, 1085, 1072, 1103, 32, 1076, 1086, 1079, 1072]),
      (ascii ''dose'', [1044, 1086, 1079, 1072]),
      (ascii ''unit'', [1045, 1076, 1080, 1085, 1080, 1094, 1072]),
      (ascii ''interval'', [1048, 1085, 1090, 1077, 1088, 1074, 1072, 1083]),
      (ascii ''intervalUnit'',
        [1045, 1076, 1080, 1085, 1080, 1094, 1072, 32, 1080, 1085, 1090, 1077, 1088, 1074,
         1072, 1083, 1072]),
      (ascii ''intakeCount'',
        [1050, 1088, 1072, 1090, 1085, 1086, 1089, 1090, 1100, 32, 1087, 1088, 1080, 1077,
         1084, 1072]),
      (ascii ''daily_dose'',
        [1057, 1091, 1090, 1086, 1095, 1085, 1072, 1103, 32, 1076, 1086, 1079, 1072]),
      (ascii ''courseDurationMin'',
        [1052, 1080, 1085, 1080, 1084, 1072, 1083, 1100, 1085, 1072, 1103, 32, 1076, 1083,
         1080, 1090, 1077, 1083, 1100, 1085, 1086, 1089, 1090, 1100, 32, 1082, 1091, 1088,
         1089, 1072]),
      (ascii ''courseDurationMax'',
        [1052, 1072, 1082, 1089, 1080, 1084, 1072, 1083, 1100, 1085, 1072, 1103, 32, 1076,
         1083, 1080, 1090, 1077, 1083, 1100, 1085, 1086, 1089, 1090, 1100, 32, 1082, 1091,
         1088, 1089, 1072]),
      (ascii ''courseDuration'',
        [1044, 1083, 1080, 1090, 1077, 1083, 1100, 1085, 1086, 1089, 1090, 1100, 32, 1082,
         1091, 1088, 1089, 1072]),
      (ascii ''loading_dose'',
        [1053, 1072, 1075, 1088, 1091, 1079, 1086, 1095, 1085, 1072, 1103, 32, 1076, 1086,
         1079, 1072]),
      (ascii ''courseMaxF'',
        [1054, 1075, 1088, 1072, 1085, 1080, 1095, 1077, 1085, 1080, 1077, 32, 1082, 1091,
         1088, 1089, 1072, 32, 40, 1092, 1086, 1088, 1084, 1091, 1083, 1072, 41]),
      (ascii ''expr'', [1060, 1086, 1088, 1084, 1091, 1083, 1072]),
      (ascii ''vars'', [1055, 1077, 1088, 1077, 1084, 1077, 1085, 1085, 1099, 1077]),
      (ascii ''schemaDescription'',
        [1054, 1087, 1080, 1089, 1072, 1085, 1080, 1077, 32, 1089, 1093, 1077, 1084, 1099]),
      (ascii ''step1'', [1064, 1072, 1075, 32, 49]),
      (ascii ''step2'', [1064, 1072, 1075, 32, 50]),
      (ascii ''step3'', [1064, 1072, 1075, 32, 51]),
      (ascii ''specialPatientGroups'',
        [1054, 1089, 1086, 1073, 1099, 1077, 32, 1075, 1088, 1091, 1087, 1087, 1099, 32, 1087,
         1072, 1094, 1080, 1077, 1085, 1090, 1086, 1074]),
      (ascii ''icd10_code'', [1050, 1086, 1076, 32, 1052, 1050, 1041, 45, 49, 48]),
      (ascii ''disease'',
        [1057, 1086, 1089, 1090, 1086, 1103, 1085, 1080, 1077, 47, 1075, 1088, 1091, 1087,
         1087, 1072]),
      (ascii ''administration'',
        [1057, 1087, 1086, 1089, 1086, 1073, 32, 1087, 1088, 1080, 1084, 1077, 1085, 1077,
         1085, 1080, 1103]),
      (ascii ''time'', [1042, 1088, 1077, 1084, 1103, 32, 1087, 1088, 1080, 1077, 1084, 1072]),
      (ascii ''food'',
        [1057, 1074, 1103, 1079, 1100, 32, 1089, 32, 1087, 1088, 1080, 1077, 1084, 1086, 1084,
         32, 1087, 1080, 1097, 1080]),
      (ascii ''form'',
        [1051, 1077, 1082, 1072, 1088, 1089, 1090, 1074, 1077, 1085, 1085, 1072, 1103, 32,
         1092, 1086, 1088, 1084, 1072])
     ]"

definition label_ru :: "ustr \<Rightarrow> ustr" where
  \<comment> \<open>\<open>KEY_LABELS_RU.get(key, key)\<close>\<close>
  "label_ru key = (case map_of KEY_LABELS_RU key of None \<Rightarrow> key | Some label \<Rightarrow> label)"

subsection \<open>Durations\<close>

definition opt_unit :: "ucd \<Rightarrow> nat \<Rightarrow> ustr \<Rightarrow> ustr option \<times> ustr" where
  \<comment> \<open>\<open>(?:(\d+)X)?\<close> at the start of the text, for the unit letter \<open>X\<close>: the group and
      the rest of the text. The digits are taken greedily; as the letter is no digit, a
      shorter run of digits cannot be followed by it.\<close>
  "opt_unit U letter s =
     (let ds = takeWhile (is_digit U) s
      in case dropWhile (is_digit U) s of
           [] \<Rightarrow> (None, s)
         | c # rest \<Rightarrow> if ds \<noteq> [] \<and> c = letter then (Some ds, rest) else (None, s))"

definition duration_fullmatch ::
  "ucd \<Rightarrow> ustr \<Rightarrow> (ustr option \<times> ustr option \<times> ustr option \<times> ustr option) option" where
  \<comment> \<open>\<open>re.fullmatch(r"P(?:(\d+)Y)?(?:(\d+)M)?(?:(\d+)W)?(?:(\d+)D)?", s)\<close>: the four
      groups of the match, or \<open>None\<close>\<close>
  "duration_fullmatch U s =
     (case s of
        [] \<Rightarrow> None
      | c # s0 \<Rightarrow>
          if c \<noteq> 80 then None
          else (let (y, s1) = opt_unit U 89 s0;
                    (m, s2) = opt_unit U 77 s1;
                    (w, s3) = opt_unit U 87 s2;
                    (d, s4) = opt_unit U 68 s3
                in if s4 = [] then Some (y, m, w, d) else None))"

definition group_int :: "ucd \<Rightarrow> ustr option \<Rightarrow> nat" where
  \<comment> \<open>\<open>int(m.group(i) or 0)\<close>; a group that took part in the match is a non-empty run
      of decimal digits\<close>
  "group_int U g = (case g of None \<Rightarrow> 0 | Some ds \<Rightarrow> digits_value U 0 ds)"

definition unit_part :: "nat \<Rightarrow> ustr \<Rightarrow> ustr list" where
  \<comment> \<open>\<open>if n: parts.append(f"{n} abbr")\<close>\<close>
  "unit_part n abbr = (if n \<noteq> 0 then [show_nat n @ [32] @ abbr] else [])"

definition humanize_iso_duration :: "ucd \<Rightarrow> ustr \<Rightarrow> ustr" where
  "humanize_iso_duration U val =
     (case duration_fullmatch U (strip val) of
        None \<Rightarrow> val
      | Some (y, m, w, d) \<Rightarrow>
          (let years = group_int U y;
               months = group_int U m;
               weeks = group_int U w;
               days = group_int U d;
               parts = unit_part years [1075, 46]
                     @ unit_part months [1084, 1077, 1089, 46]
                     @ unit_part weeks [1085, 1077, 1076, 46]
                     @ unit_part days [1076, 1085, 46]
           in if parts \<noteq> [] then join [32] parts else val))"

text \<open>
  The restricted duration subset, as the specification describes it: the letter P, then
  the years, the months, the weeks and the days, in that order, each of them optional
  and each a non-empty run of decimal digits followed by its letter. \<open>duration_text\<close>
  is the text of such a duration and \<open>digit_run\<close> says what a count may be.
\<close>

definition unit_text :: "ustr option \<Rightarrow> nat \<Rightarrow> ustr" where
  "unit_text g letter = (case g of None \<Rightarrow> [] | Some ds \<Rightarrow> ds @ [letter])"

definition duration_text :: "ustr option \<Rightarrow> ustr option \<Rightarrow> ustr option \<Rightarrow> ustr option \<Rightarrow> ustr" where
  "duration_text y m w d = 80 # unit_text y 89 @ unit_text m 77 @ unit_text w 87 @ unit_text d 68"

definition digit_run :: "ucd \<Rightarrow> ustr option \<Rightarrow> bool" where
  "digit_run U g = (case g of None \<Rightarrow> True | Some ds \<Rightarrow> ds \<noteq> [] \<and> list_all (is_digit U) ds)"

subsection \<open>Scalar values\<close>

text \<open>
  A scalar of the loaded JSON: \<open>None\<close>, a bool, an int, a float or a str. Only the text
  of a float is ever used, so a float is represented by what \<open>str\<close> gives for it.
\<close>

datatype scalar = VNone | VBool bool | VInt int | VFloat ustr | VStr ustr

definition py_str :: "scalar \<Rightarrow> ustr" where
  \<comment> \<open>\<open>str(value)\<close>, also what an f-string puts in\<close>
  "py_str v =
     (case v of
        VNone \<Rightarrow> ascii ''None''
      | VBool b \<Rightarrow> (if b then ascii ''True'' else ascii ''False'')
      | VInt i \<Rightarrow> show_int i
      | VFloat r \<Rightarrow> r
      | VStr s \<Rightarrow> s)"

definition is_str :: "scalar \<Rightarrow> bool" where
  "is_str v = (case v of VStr s \<Rightarrow> True | _ \<Rightarrow> False)"

definition interval_units :: "(ustr \<times> ustr) list" where
  "interval_units =
     [(ascii ''DAY'', [1076, 1077, 1085, 1100]),
      (ascii ''WEEK'', [1085, 1077, 1076, 1077, 1083, 1103]),
      (ascii ''MONTH'', [1084, 1077, 1089, 1103, 1094]),
      (ascii ''YEAR'', [1075, 1086, 1076])]"

definition humanize_value :: "ucd \<Rightarrow> ustr \<Rightarrow> scalar \<Rightarrow> scalar" where
  "humanize_value U key v =
     (if is_str v \<and> key \<in> set [ascii ''courseDurationMin'', ascii ''courseDurationMax'',
                                ascii ''courseDuration'']
      then VStr (humanize_iso_duration U (py_str v))
      else if key = ascii ''intervalUnit''
      then (case map_of interval_units (py_str v) of None \<Rightarrow> v | Some word \<Rightarrow> VStr word)
      else v)"

subsection \<open>Tags\<close>

definition tag_parts :: "ustr \<Rightarrow> ustr list" where
  \<comment> \<open>\<open>[p.strip() for p in raw_tags.split(";") if p.strip()]\<close>\<close>
  "tag_parts raw_tags = map strip (filter (\<lambda>p. strip p \<noteq> []) (split_on 59 raw_tags))"

definition palette :: "ustr list" where
  "palette = [ascii ''#E3F2FD'', ascii ''#E8F5E9'', ascii ''#FFF3E0'', ascii ''#F3E5F5'',
              ascii ''#E0F7FA'']"

definition tag_chip :: "nat \<Rightarrow> ustr \<Rightarrow> ustr" where
  \<comment> \<open>the \<open>span\<close> of the chip number \<open>idx\<close>\<close>
  "tag_chip idx part =
     ascii ''<span style='background:'' @ palette ! (idx mod length palette)
     @ ascii ''; color:#111111; padding:4px 8px; border-radius:6px; ''
     @ ascii ''margin-right:6px; display:inline-block; margin-bottom:6px;'' @ [39, 62] @ part
     @ ascii ''</span>''"

definition render_tags :: "ustr \<Rightarrow> 'img display list" where
  "render_tags raw_tags =
     (let parts = tag_parts raw_tags
      in if parts = [] then []
         else [Markdown (ascii ''**'' @ label_ru (ascii ''tags'') @ ascii '':**  ''
                         @ concat (map (\<lambda>(idx, part). tag_chip idx part)
                                     (zip [0 ..< length parts] parts)))])"

subsection \<open>Scalar lines\<close>

definition render_scalar_line :: "ucd \<Rightarrow> ustr \<Rightarrow> scalar \<Rightarrow> 'img display list" where
  "render_scalar_line U key v =
     (if v = VNone then []
      else if is_str v \<and> strip (py_str v) = [] then []
      else if key = ascii ''tags'' then render_tags (py_str v)
      else (let shown = humanize_value U key v;
                value_class = (if key = ascii ''schemaDescription''
                               then ascii ''dense-value-regular'' else ascii ''dense-value'')
            in [Markdown (ascii ''<div class='dense-line'>''
                          @ ascii ''<span class='dense-key'>'' @ label_ru key
                          @ ascii '':</span> <span class='' @ [39] @ value_class @ [39, 62]
                          @ py_str shown @ ascii ''</span>''
                          @ ascii ''</div>'')]))"

section \<open>Selection list\<close>

definition mentions_prednisolone :: "ucd \<Rightarrow> ustr \<Rightarrow> bool" where
  \<comment> \<open>the test of the loop: the Russian word for prednisolone, in lower case, occurs
      in \<open>name.lower()\<close>\<close>
  "mentions_prednisolone U name =
     contains (lower U name) [1087, 1088, 1077, 1076, 1085, 1080, 1079, 1086, 1083, 1086, 1085]"

fun keep_first_prednisolone :: "ucd \<Rightarrow> bool \<Rightarrow> ustr list \<Rightarrow> ustr list" where
  \<comment> \<open>the loop over the sorted names; the flag is \<open>prednisolone_kept\<close>\<close>
  "keep_first_prednisolone U kept [] = []"
| "keep_first_prednisolone U kept (name # names) =
     (if mentions_prednisolone U name
      then (if kept then keep_first_prednisolone U kept names
            else name # keep_first_prednisolone U True names)
      else name # keep_first_prednisolone U kept names)"

definition list_result_files :: "ucd \<Rightarrow> ustr list option \<Rightarrow> ustr list" where
  \<comment> \<open>the argument is \<open>None\<close> when the results directory does not exist, and otherwise
      the names of the entries that \<open>glob("*.json")\<close> yields, in the order it yields them\<close>
  "list_result_files U listing =
     (case listing of
        None \<Rightarrow> []
      | Some names \<Rightarrow>
          keep_first_prednisolone U False
            (sort (filter (\<lambda>name. \<not> startswith name (ascii ''_'')) names)))"

section \<open>Example data\<close>

text \<open>
  A fragment of the character database for the examples: \<open>str.lower\<close> on Latin and
  Russian letters, the Cyrillic block as letters, the Arabic-Indic digits as decimal
  digits.
\<close>

definition lower_basic :: "ustr \<Rightarrow> ustr" where
  "lower_basic s =
     map (\<lambda>c. if (65 \<le> c \<and> c \<le> 90) \<or> (1040 \<le> c \<and> c \<le> 1071) then c + 32
              else if 1024 \<le> c \<and> c \<le> 1039 then c + 80
              else c) s"

definition example_ucd :: ucd where
  "example_ucd =
     \<lparr>decimal = (\<lambda>c. if 1632 \<le> c \<and> c \<le> 1641 then Some (c - 1632) else None),
      alnum = (\<lambda>c. 1024 \<le> c \<and> c \<le> 1279),
      lower = lower_basic\<rparr>"

text \<open>
  A world with one document of three pages, the second of which holds the section
  heading; the image of a page is its number, and only the pages 1 to 3 render.
\<close>

definition example_world :: "int world" where
  "example_world =
     \<lparr>unicode = example_ucd,
      run_pdftotext = (\<lambda>path. Inr (ascii ''Title'' @ [12] @ ascii ''4.1 Indications'' @ [12]
                                  @ ascii ''4.2 Dosage'')),
      run_pdfinfo = (\<lambda>path. Inr (ascii ''Title: x'' @ [10] @ ascii ''Pages:          3'' @ [10])),
      convert_from_path = (\<lambda>path dpi first last fmt.
         if 1 \<le> first \<and> first \<le> 3 then Inr [first] else Inl (ToolError (ascii ''no page''))),
      path_exists = (\<lambda>path. True)\<rparr>"

text \<open>The same world with every external tool failing.\<close>

definition failing_world :: "int world" where
  "failing_world =
     example_world
       \<lparr>run_pdftotext := (\<lambda>path. Inl (ToolError (ascii ''pdftotext''))),
        run_pdfinfo := (\<lambda>path. Inl (ToolError (ascii ''pdfinfo''))),
        convert_from_path := (\<lambda>path dpi first last fmt. Inl (ToolError (ascii ''poppler'')))\<rparr>"

section \<open>The page count\<close>

lemma pages_line_ge1: "pages_line U ls = Inr (Some n) \<Longrightarrow> 1 \<le> n"
  by (induction ls) (auto split: if_splits sum.splits option.splits)

lemma get_pdf_page_count_ge1: "1 \<le> get_pdf_page_count W pdf_path"
  by (auto simp: get_pdf_page_count_def dest: pages_line_ge1 split: sum.splits option.splits)

lemma split_once_absent: "sep \<notin> set s \<Longrightarrow> split_once sep s = [s]"
  by (induction s) auto

lemma split_once_first: "sep \<notin> set pre \<Longrightarrow> split_once sep (pre @ sep # field) = [pre, field]"
  by (induction pre) auto

lemma pages_line_skip:
  "\<forall>l\<in>set ls1. \<not> startswith (lower U l) (ascii ''pages:'') \<Longrightarrow>
     pages_line U (ls1 @ ls) = pages_line U ls"
  by (induction ls1) auto

lemma pages_line_absent:
  "\<forall>l\<in>set ls. \<not> startswith (lower U l) (ascii ''pages:'') \<Longrightarrow> pages_line U ls = Inr None"
  by (induction ls) auto

text \<open>
  C9: the page count is at least 1 for every document. It is 1 when the metadata tool
  fails, when no line of its output starts with \<open>pages:\<close> (in any case), when the
  first such line has no colon, or when the text after its first colon is no integer;
  otherwise it is the greater of 1 and that integer.
\<close>

theorem page_count_at_least_one:
  "1 \<le> get_pdf_page_count W pdf_path
   \<and> (\<forall>e. run_pdfinfo W pdf_path = Inl e \<longrightarrow> get_pdf_page_count W pdf_path = 1)
   \<and> (\<forall>out. run_pdfinfo W pdf_path = Inr out \<longrightarrow>
         ((\<forall>l\<in>set (splitlines out). \<not> startswith (lower (unicode W) l) (ascii ''pages:''))
            \<longrightarrow> get_pdf_page_count W pdf_path = 1)
       \<and> (\<forall>ls1 line ls2.
             splitlines out = ls1 @ line # ls2
             \<and> (\<forall>l\<in>set ls1. \<not> startswith (lower (unicode W) l) (ascii ''pages:''))
             \<and> startswith (lower (unicode W) line) (ascii ''pages:'')
             \<longrightarrow> (58 \<notin> set line \<longrightarrow> get_pdf_page_count W pdf_path = 1)
               \<and> (\<forall>pre field. line = pre @ 58 # field \<and> 58 \<notin> set pre \<longrightarrow>
                     get_pdf_page_count W pdf_path
                       = (case py_int (unicode W) (strip field) of
                            None \<Rightarrow> 1
                          | Some n \<Rightarrow> max 1 n))))"
proof (intro conjI allI impI)
  show "1 \<le> get_pdf_page_count W pdf_path" by (rule get_pdf_page_count_ge1)
next
  fix e assume "run_pdfinfo W pdf_path = Inl e"
  then show "get_pdf_page_count W pdf_path = 1" by (simp add: get_pdf_page_count_def)
next
  fix out
  assume "run_pdfinfo W pdf_path = Inr out"
    and "\<forall>l\<in>set (splitlines out). \<not> startswith (lower (unicode W) l) (ascii ''pages:'')"
  then show "get_pdf_page_count W pdf_path = 1"
    by (simp add: get_pdf_page_count_def pages_line_absent)
next
  fix out ls1 line ls2
  assume run: "run_pdfinfo W pdf_path = Inr out"
    and h: "splitlines out = ls1 @ line # ls2
             \<and> (\<forall>l\<in>set ls1. \<not> startswith (lower (unicode W) l) (ascii ''pages:''))
             \<and> startswith (lower (unicode W) line) (ascii ''pages:'')"
    and nocolon: "58 \<notin> set line"
  from h have "pages_line (unicode W) (splitlines out) = pages_line (unicode W) (line # ls2)"
    by (simp add: pages_line_skip)
  with h nocolon run show "get_pdf_page_count W pdf_path = 1"
    by (simp add: get_pdf_page_count_def split_once_absent index_def)
next
  fix out ls1 line ls2 pre field
  assume run: "run_pdfinfo W pdf_path = Inr out"
    and h: "splitlines out = ls1 @ line # ls2
             \<and> (\<forall>l\<in>set ls1. \<not> startswith (lower (unicode W) l) (ascii ''pages:''))
             \<and> startswith (lower (unicode W) line) (ascii ''pages:'')"
    and line: "line = pre @ 58 # field \<and> 58 \<notin> set pre"
  from h have "pages_line (unicode W) (splitlines out) = pages_line (unicode W) (line # ls2)"
    by (simp add: pages_line_skip)
  moreover from line have "split_once 58 line = [pre, field]" by (simp add: split_once_first)
  ultimately show "get_pdf_page_count W pdf_path
                       = (case py_int (unicode W) (strip field) of
                            None \<Rightarrow> 1
                          | Some n \<Rightarrow> max 1 n)"
    using h run by (simp add: get_pdf_page_count_def index_def split: option.splits)
qed

theorem page_count_at_least_one_witness:
  "run_pdfinfo example_world (ascii ''a.pdf'')
     = Inr (ascii ''Title: x'' @ [10] @ ascii ''Pages:          3'' @ [10])
   \<and> splitlines (ascii ''Title: x'' @ [10] @ ascii ''Pages:          3'' @ [10])
       = [ascii ''Title: x''] @ (ascii ''Pages'' @ 58 # ascii ''          3'') # []
   \<and> \<not> startswith (lower (unicode example_world) (ascii ''Title: x'')) (ascii ''pages:'')
   \<and> startswith (lower (unicode example_world) (ascii ''Pages'' @ 58 # ascii ''          3''))
        (ascii ''pages:'')
   \<and> py_int (unicode example_world) (strip (ascii ''          3'')) = Some 3
   \<and> get_pdf_page_count example_world (ascii ''a.pdf'') = 3
   \<and> run_pdfinfo failing_world (ascii ''a.pdf'') = Inl (ToolError (ascii ''pdfinfo''))
   \<and> get_pdf_page_count failing_world (ascii ''a.pdf'') = 1"
proof -
  note ok = page_count_at_least_one[where W = example_world and pdf_path = "ascii ''a.pdf''"]
  note ko = page_count_at_least_one[where W = failing_world and pdf_path = "ascii ''a.pdf''"]
  have run: "run_pdfinfo example_world (ascii ''a.pdf'')
     = Inr (ascii ''Title: x'' @ [10] @ ascii ''Pages:          3'' @ [10])"
    by (simp add: example_world_def)
  have lines: "splitlines (ascii ''Title: x'' @ [10] @ ascii ''Pages:          3'' @ [10])
       = [ascii ''Title: x''] @ (ascii ''Pages'' @ 58 # ascii ''          3'') # []"
    by (simp add: splitlines_def ascii_def is_linebreak_def)
  have l1: "\<not> startswith (lower (unicode example_world) (ascii ''Title: x'')) (ascii ''pages:'')"
    by (simp add: example_world_def example_ucd_def lower_basic_def ascii_def)
  have l2: "startswith (lower (unicode example_world) (ascii ''Pages'' @ 58 # ascii ''          3''))
        (ascii ''pages:'')"
    by (simp add: example_world_def example_ucd_def lower_basic_def ascii_def)
  have num: "py_int (unicode example_world) (strip (ascii ''          3'')) = Some 3"
    by (simp add: example_world_def example_ucd_def py_int_def int_space_def strip_def isspace_def
        ascii_def digit_val_def)
  have pre: "58 \<notin> set (ascii ''Pages'')" by (simp add: ascii_def)
  have "get_pdf_page_count example_world (ascii ''a.pdf'')
          = (case py_int (unicode example_world) (strip (ascii ''          3'')) of
               None \<Rightarrow> 1 | Some n \<Rightarrow> max 1 n)"
    by (rule ok[THEN conjunct2, THEN conjunct2, rule_format, THEN conjunct2, rule_format,
          THEN conjunct2, rule_format, of _ "[ascii ''Title: x'']" _ "[]" "ascii ''Pages''"])
       (use run lines l1 l2 pre in simp_all)
  with num have three: "get_pdf_page_count example_world (ascii ''a.pdf'') = 3" by simp
  have fail: "run_pdfinfo failing_world (ascii ''a.pdf'') = Inl (ToolError (ascii ''pdfinfo''))"
    by (simp add: failing_world_def)
  from ko[THEN conjunct2, THEN conjunct1, rule_format, OF fail]
  have one: "get_pdf_page_count failing_world (ascii ''a.pdf'') = 1" .
  from run lines l1 l2 num three fail one show ?thesis by blast
qed

section \<open>The section locator\<close>

lemma scan_pages_absent:
  "\<forall>t\<in>set pages. \<not> marker_search U t \<Longrightarrow> scan_pages U idx pages = 1"
  by (induction pages arbitrary: idx) auto

lemma scan_pages_first:
  "i < length pages \<Longrightarrow> marker_search U (pages ! i) \<Longrightarrow>
   \<forall>j<i. \<not> marker_search U (pages ! j) \<Longrightarrow> scan_pages U idx pages = idx + int i"
proof (induction pages arbitrary: idx i)
  case Nil
  then show ?case by simp
next
  case (Cons t pages)
  show ?case
  proof (cases i)
    case 0
    with Cons.prems show ?thesis by simp
  next
    case (Suc i')
    with Cons.prems have "\<not> marker_search U t" by auto
    moreover have "scan_pages U (idx + 1) pages = idx + 1 + int i'"
      using Cons.prems Suc by (intro Cons.IH) auto
    ultimately show ?thesis using Suc by simp
  qed
qed

text \<open>
  C2: the section locator returns 1 when the text extraction fails, whatever the
  failure, and when no page of the extracted text matches the marker; otherwise it
  returns the 1-based index of the first matching page, in the order of the document.
\<close>

theorem section_page_first_match:
  "(\<forall>e. run_pdftotext W pdf_path = Inl e \<longrightarrow> find_section_page W pdf_path label = 1)
   \<and> (\<forall>out. run_pdftotext W pdf_path = Inr out \<longrightarrow>
         ((\<forall>t\<in>set (split_on 12 out). \<not> marker_search (unicode W) t)
            \<longrightarrow> find_section_page W pdf_path label = 1)
       \<and> (\<forall>i. i < length (split_on 12 out)
                \<and> marker_search (unicode W) (split_on 12 out ! i)
                \<and> (\<forall>j<i. \<not> marker_search (unicode W) (split_on 12 out ! j))
              \<longrightarrow> find_section_page W pdf_path label = int i + 1))"
  by (auto simp: find_section_page_def scan_pages_absent scan_pages_first)

theorem section_page_first_match_witness:
  "run_pdftotext example_world (ascii ''a.pdf'')
     = Inr (ascii ''Title'' @ [12] @ ascii ''4.1 Indications'' @ [12] @ ascii ''4.2 Dosage'')
   \<and> split_on 12 (ascii ''Title'' @ [12] @ ascii ''4.1 Indications'' @ [12] @ ascii ''4.2 Dosage'')
       = [ascii ''Title'', ascii ''4.1 Indications'', ascii ''4.2 Dosage'']
   \<and> \<not> marker_search (unicode example_world) (ascii ''Title'')
   \<and> marker_search (unicode example_world) (ascii ''4.1 Indications'')
   \<and> find_section_page example_world (ascii ''a.pdf'') (ascii ''4.1'') = 2
   \<and> run_pdftotext failing_world (ascii ''a.pdf'') = Inl (ToolError (ascii ''pdftotext''))
   \<and> find_section_page failing_world (ascii ''a.pdf'') (ascii ''4.1'') = 1"
proof -
  note ok = section_page_first_match[where W = example_world and pdf_path = "ascii ''a.pdf''"
      and label = "ascii ''4.1''"]
  note ko = section_page_first_match[where W = failing_world and pdf_path = "ascii ''a.pdf''"
      and label = "ascii ''4.1''"]
  have run: "run_pdftotext example_world (ascii ''a.pdf'')
     = Inr (ascii ''Title'' @ [12] @ ascii ''4.1 Indications'' @ [12] @ ascii ''4.2 Dosage'')"
    by (simp add: example_world_def)
  have pages: "split_on 12 (ascii ''Title'' @ [12] @ ascii ''4.1 Indications'' @ [12] @ ascii ''4.2 Dosage'')
       = [ascii ''Title'', ascii ''4.1 Indications'', ascii ''4.2 Dosage'']"
    by (simp add: ascii_def)
  have p1: "\<not> marker_search (unicode example_world) (ascii ''Title'')"
    by (simp add: marker_search_def marker_at_def ascii_def)
  have p2: "marker_search (unicode example_world) (ascii ''4.1 Indications'')"
    by (simp add: marker_search_def marker_at_def ascii_def word_boundary_def is_word_opt_def
        is_word_def)
  have "find_section_page example_world (ascii ''a.pdf'') (ascii ''4.1'') = int 1 + 1"
    by (rule ok[THEN conjunct2, rule_format, THEN conjunct2, rule_format, OF run])
       (use pages p1 p2 in simp)
  then have two: "find_section_page example_world (ascii ''a.pdf'') (ascii ''4.1'') = 2" by simp
  have fail: "run_pdftotext failing_world (ascii ''a.pdf'') = Inl (ToolError (ascii ''pdftotext''))"
    by (simp add: failing_world_def)
  from ko[THEN conjunct1, rule_format, OF fail]
  have one: "find_section_page failing_world (ascii ''a.pdf'') (ascii ''4.1'') = 1" .
  from run pages p1 p2 two fail one show ?thesis by blast
qed

text \<open>
  C3: the label given to the section locator does not reach the pattern. In the example
  document, whose third page holds the heading 4.2 and whose second page holds 4.1, the
  locator asked for 4.2 answers 2; for every document the answer is the same for all
  labels.
\<close>

theorem section_label_ignored:
  "find_section_page example_world (ascii ''a.pdf'') (ascii ''4.2'') = 2
   \<and> (\<forall>W pdf_path label label'.
         find_section_page (W :: 'img world) pdf_path label = find_section_page W pdf_path label')"
  by (simp add: find_section_page_def example_world_def example_ucd_def ascii_def
      marker_search_def marker_at_def word_boundary_def is_word_opt_def is_word_def)

section \<open>The pagination state\<close>


lemma render_page_control_total:
  assumes "st k = Some p" and "1 \<le> N"
  shows "\<exists>st' shown q. render_page_control N k pre lbl clicked st = Inr (st', shown)
           \<and> st' k = Some q \<and> 1 \<le> q \<and> q \<le> N"
  using assms by (simp add: render_page_control_def Let_def)

lemma render_page_control_moves:
  assumes "st k = Some p" and "1 \<le> p" and "p \<le> N"
    and "render_page_control N k pre lbl clicked st = Inr (st', shown)"
  shows "(clicked (pre @ ascii ''_next'') \<and> \<not> clicked (pre @ ascii ''_prev'') \<longrightarrow> st' k = Some (min N (p + 1)))
       \<and> (clicked (pre @ ascii ''_prev'') \<and> \<not> clicked (pre @ ascii ''_next'') \<longrightarrow> st' k = Some (max 1 (p - 1)))
       \<and> (\<not> clicked (pre @ ascii ''_prev'') \<and> \<not> clicked (pre @ ascii ''_next'') \<longrightarrow> st' k = Some p)"
  using assms by (auto simp add: render_page_control_def Let_def)

lemma render_pdf_page_in_range:
  assumes "path_exists W pdf_path"
  shows "\<exists>st' shown q. render_pdf W pdf_path state_key clicked st = Inr (st', shown)
           \<and> st' (ascii ''pdf_page_'' @ state_key) = Some q
           \<and> 1 \<le> q \<and> q \<le> get_pdf_page_count W pdf_path"
proof -
  define N where "N = get_pdf_page_count W pdf_path"
  define k where "k = ascii ''pdf_page_'' @ state_key"
  define s where "s = min (max (find_section_page W pdf_path (ascii ''4.1'')) 1) N"
  define st1 where "st1 = (if st k = None then st(k \<mapsto> s) else st)"
  have N: "1 \<le> N" unfolding N_def by (rule get_pdf_page_count_ge1)
  obtain p where p: "st1 k = Some p" unfolding st1_def by (cases "st k") auto
  from render_page_control_total[of st1 k p N, OF p N]
  obtain st2 out2 q2 where top:
    "render_page_control N k (ascii ''top_'' @ state_key) True clicked st1 = Inr (st2, out2 :: 'a display list)"
    and q2: "st2 k = Some q2" "1 \<le> q2" "q2 \<le> N" by blast
  from render_page_control_total[of st2 k q2 N, OF q2(1) N]
  obtain st4 out4 q4 where bot:
    "render_page_control N k (ascii ''bottom_'' @ state_key) False clicked st2 = Inr (st4, out4 :: 'a display list)"
    and q4: "st4 k = Some q4" "1 \<le> q4" "q4 \<le> N" by blast
  show ?thesis
    using assms top bot q2 q4
    unfolding render_pdf_def Let_def N_def[symmetric] k_def[symmetric] s_def[symmetric] st1_def[symmetric]
    by (auto split: sum.splits option.splits)
qed

lemma render_pdf_initial_page:
  assumes "path_exists W pdf_path" and "st (ascii ''pdf_page_'' @ state_key) = None"
    and "\<And>b. \<not> clicked b"
  shows "\<exists>st' shown. render_pdf W pdf_path state_key clicked st = Inr (st', shown)
           \<and> st' (ascii ''pdf_page_'' @ state_key)
               = Some (min (max (find_section_page W pdf_path (ascii ''4.1'')) 1)
                        (get_pdf_page_count W pdf_path))"
proof -
  have N: "1 \<le> get_pdf_page_count W pdf_path" by (rule get_pdf_page_count_ge1)
  show ?thesis
    using assms N
    by (auto simp: render_pdf_def Let_def render_page_control_def split: sum.splits option.splits)
qed

lemma render_pdf_passes_in_range:
  assumes "path_exists W pdf_path" and "passes \<noteq> []"
  shows "\<exists>st' q. render_pdf_passes W pdf_path state_key passes st = Inr st'
           \<and> st' (ascii ''pdf_page_'' @ state_key) = Some q
           \<and> 1 \<le> q \<and> q \<le> get_pdf_page_count W pdf_path"
  using assms(2)
proof (induction passes arbitrary: st)
  case Nil
  then show ?case by simp
next
  case (Cons c rest)
  from render_pdf_page_in_range[OF assms(1), of state_key c st]
  obtain st' shown q where r: "render_pdf W pdf_path state_key c st = Inr (st', shown :: 'a display list)"
    and q: "st' (ascii ''pdf_page_'' @ state_key) = Some q" "1 \<le> q" "q \<le> get_pdf_page_count W pdf_path"
    by blast
  show ?case
  proof (cases "rest = []")
    case True
    with r q show ?thesis by simp
  next
    case False
    from Cons.IH[OF False, of st'] r show ?thesis by simp
  qed
qed

text \<open>
  C1: with a page count of at least 1, a page control leaves a page between 1 and the
  page count in the session state, whatever page was stored and whichever buttons were
  pressed; on a page in range, the next button alone stores \<open>min N (p + 1)\<close> and the
  back button alone \<open>max 1 (p - 1)\<close>. The first pass over an existing document
  stores the located section page, clamped; and after every non-empty sequence of
  passes the stored page is between 1 and the document's page count.
\<close>

theorem page_index_stays_in_range:
  fixes W :: "'img world"
  shows
    "(1 \<le> N \<and> st k = Some p \<longrightarrow>
        (\<exists>st' shown q. render_page_control N k pre lbl clicked st = Inr (st', shown :: 'img display list)
           \<and> st' k = Some q \<and> 1 \<le> q \<and> q \<le> N
           \<and> (1 \<le> p \<and> p \<le> N \<and> clicked (pre @ ascii ''_next'') \<and> \<not> clicked (pre @ ascii ''_prev'')
                \<longrightarrow> q = min N (p + 1))
           \<and> (1 \<le> p \<and> p \<le> N \<and> clicked (pre @ ascii ''_prev'') \<and> \<not> clicked (pre @ ascii ''_next'')
                \<longrightarrow> q = max 1 (p - 1))))
     \<and> (path_exists W pdf_path \<and> st0 (ascii ''pdf_page_'' @ state_key) = None \<and> (\<forall>b. \<not> idle b) \<longrightarrow>
        (\<exists>st' shown. render_pdf W pdf_path state_key idle st0 = Inr (st', shown)
           \<and> st' (ascii ''pdf_page_'' @ state_key)
               = Some (min (max (find_section_page W pdf_path (ascii ''4.1'')) 1)
                        (get_pdf_page_count W pdf_path))))
     \<and> (path_exists W pdf_path \<and> passes \<noteq> [] \<longrightarrow>
        (\<exists>st' q. render_pdf_passes W pdf_path state_key passes st1 = Inr st'
           \<and> st' (ascii ''pdf_page_'' @ state_key) = Some q
           \<and> 1 \<le> q \<and> q \<le> get_pdf_page_count W pdf_path))"
proof (intro conjI impI)
  assume a: "1 \<le> N \<and> st k = Some p"
  from render_page_control_total[of st k p N pre lbl clicked] a
  obtain st' q and shown :: "'img display list" where r: "render_page_control N k pre lbl clicked st = Inr (st', shown)"
    and q: "st' k = Some q" "1 \<le> q" "q \<le> N" by blast
  have "1 \<le> p \<and> p \<le> N \<and> clicked (pre @ ascii ''_next'') \<and> \<not> clicked (pre @ ascii ''_prev'')
                \<longrightarrow> q = min N (p + 1)"
    using render_page_control_moves[of st k p N pre lbl clicked st' shown] a r q by auto
  moreover have "1 \<le> p \<and> p \<le> N \<and> clicked (pre @ ascii ''_prev'') \<and> \<not> clicked (pre @ ascii ''_next'')
                \<longrightarrow> q = max 1 (p - 1)"
    using render_page_control_moves[of st k p N pre lbl clicked st' shown] a r q by auto
  ultimately show "\<exists>st' shown q. render_page_control N k pre lbl clicked st = Inr (st', shown :: 'img display list)
           \<and> st' k = Some q \<and> 1 \<le> q \<and> q \<le> N
           \<and> (1 \<le> p \<and> p \<le> N \<and> clicked (pre @ ascii ''_next'') \<and> \<not> clicked (pre @ ascii ''_prev'')
                \<longrightarrow> q = min N (p + 1))
           \<and> (1 \<le> p \<and> p \<le> N \<and> clicked (pre @ ascii ''_prev'') \<and> \<not> clicked (pre @ ascii ''_next'')
                \<longrightarrow> q = max 1 (p - 1))"
    using r q by blast
next
  assume "path_exists W pdf_path \<and> st0 (ascii ''pdf_page_'' @ state_key) = None \<and> (\<forall>b. \<not> idle b)"
  then show "\<exists>st' shown. render_pdf W pdf_path state_key idle st0 = Inr (st', shown)
           \<and> st' (ascii ''pdf_page_'' @ state_key)
               = Some (min (max (find_section_page W pdf_path (ascii ''4.1'')) 1)
                        (get_pdf_page_count W pdf_path))"
    using render_pdf_initial_page[of W pdf_path st0 state_key idle] by blast
next
  assume "path_exists W pdf_path \<and> passes \<noteq> []"
  then show "\<exists>st' q. render_pdf_passes W pdf_path state_key passes st1 = Inr st'
           \<and> st' (ascii ''pdf_page_'' @ state_key) = Some q
           \<and> 1 \<le> q \<and> q \<le> get_pdf_page_count W pdf_path"
    using render_pdf_passes_in_range[of W pdf_path passes state_key st1] by blast
qed

lemma example_page_count: "get_pdf_page_count example_world path = 3"
  by (simp add: get_pdf_page_count_def example_world_def example_ucd_def lower_basic_def ascii_def
      splitlines_def is_linebreak_def index_def py_int_def int_space_def strip_def isspace_def
      digit_val_def)

lemma example_section_page: "find_section_page example_world path section = 2"
  by (simp add: find_section_page_def example_world_def example_ucd_def ascii_def
      marker_search_def marker_at_def word_boundary_def is_word_opt_def is_word_def)

theorem page_index_stays_in_range_witness:
  "(\<exists>st' shown.
      render_page_control 3 (ascii ''pdf_page_a'') (ascii ''top_a'') True (\<lambda>b. b = ascii ''top_a_next'')
        [ascii ''pdf_page_a'' \<mapsto> 2] = Inr (st', shown :: int display list)
      \<and> st' (ascii ''pdf_page_a'') = Some 3)
   \<and> (\<exists>st' shown.
        render_pdf example_world (ascii ''a.pdf'') (ascii ''a'') (\<lambda>b. False) Map.empty = Inr (st', shown)
        \<and> st' (ascii ''pdf_page_a'') = Some 2)
   \<and> (\<exists>st' q.
        render_pdf_passes example_world (ascii ''a.pdf'') (ascii ''a'')
          [\<lambda>b. b = ascii ''top_a_next'', \<lambda>b. b = ascii ''bottom_a_next'', \<lambda>b. b = ascii ''top_a_prev'']
          Map.empty = Inr st'
        \<and> st' (ascii ''pdf_page_a'') = Some q \<and> 1 \<le> q \<and> q \<le> 3)"
  using page_index_stays_in_range[where N = 3 and st = "[ascii ''pdf_page_a'' \<mapsto> 2]"
      and k = "ascii ''pdf_page_a''" and p = 2 and pre = "ascii ''top_a''" and lbl = True
      and clicked = "\<lambda>b. b = ascii ''top_a_next''" and W = example_world
      and pdf_path = "ascii ''a.pdf''" and state_key = "ascii ''a''" and ?st0.0 = Map.empty
      and idle = "\<lambda>b. False" and ?st1.0 = Map.empty
      and passes = "[\<lambda>b. b = ascii ''top_a_next'', \<lambda>b. b = ascii ''bottom_a_next'', \<lambda>b. b = ascii ''top_a_prev'']"]
  by (simp add: example_page_count example_section_page) (simp add: example_world_def ascii_def)

section \<open>The page renderer and its fallback\<close>

lemma render_pdf_never_raises:
  "\<exists>st' shown. render_pdf W pdf_path state_key clicked st = Inr (st', shown)"
proof (cases "path_exists W pdf_path")
  case True
  from render_pdf_page_in_range[OF True] show ?thesis by blast
next
  case False
  then show ?thesis by (simp add: render_pdf_def)
qed

lemma render_pdf_shows:
  fixes W :: "'img world"
  assumes "path_exists W pdf_path"
  shows "\<exists>st' shown cur p0.
           render_pdf W pdf_path state_key clicked st = Inr (st', shown)
           \<and> 1 \<le> cur \<and> cur \<le> get_pdf_page_count W pdf_path
           \<and> (case render_pdf_page_as_image W pdf_path cur of
                 Inr (Some img) \<Rightarrow>
                   shown = [Page_caption p0 (get_pdf_page_count W pdf_path),
                            Page_image img pdf_path cur (get_pdf_page_count W pdf_path)]
               | _ \<Rightarrow>
                   shown = [Page_caption p0 (get_pdf_page_count W pdf_path),
                            Render_warning, Pdf_link pdf_path]
                   \<and> st' (ascii ''pdf_page_'' @ state_key) = Some cur)"
proof -
  define N where "N = get_pdf_page_count W pdf_path"
  define k where "k = ascii ''pdf_page_'' @ state_key"
  define s where "s = min (max (find_section_page W pdf_path (ascii ''4.1'')) 1) N"
  define st1 where "st1 = (if st k = None then st(k \<mapsto> s) else st)"
  have N: "1 \<le> N" unfolding N_def by (rule get_pdf_page_count_ge1)
  obtain p0 where p0: "st1 k = Some p0" unfolding st1_def by (cases "st k") auto
  define page1 where "page1 = (if clicked ((ascii ''top_'' @ state_key) @ ascii ''_prev'') then max 1 (p0 - 1) else p0)"
  define page2 where "page2 = (if clicked ((ascii ''top_'' @ state_key) @ ascii ''_next'') then min N (page1 + 1) else page1)"
  define cur where "cur = min (max page2 1) N"
  have top: "render_page_control N k (ascii ''top_'' @ state_key) True clicked st1
               = Inr (st1(k \<mapsto> cur), [Page_caption p0 N :: 'img display])"
    using p0 by (simp add: render_page_control_def Let_def page1_def page2_def cur_def)
  have cur: "1 \<le> cur" "cur \<le> N" using N by (auto simp: cur_def)
  have bot: "\<exists>st4. render_page_control N k (ascii ''bottom_'' @ state_key) False clicked (st1(k \<mapsto> cur))
               = Inr (st4, [] :: 'img display list)"
    by (simp add: render_page_control_def Let_def)
  then obtain st4 where bot': "render_page_control N k (ascii ''bottom_'' @ state_key) False clicked (st1(k \<mapsto> cur))
               = Inr (st4, [] :: 'img display list)" by blast
  have eq: "render_pdf W pdf_path state_key clicked st =
     (case render_pdf_page_as_image W pdf_path cur of
        Inl e \<Rightarrow> Inr (st1(k \<mapsto> cur), [Page_caption p0 N, Render_warning, Pdf_link pdf_path])
      | Inr None \<Rightarrow> Inr (st1(k \<mapsto> cur), [Page_caption p0 N, Render_warning, Pdf_link pdf_path])
      | Inr (Some img) \<Rightarrow> Inr (st4, [Page_caption p0 N, Page_image img pdf_path cur N]))"
    using assms top bot'
    unfolding render_pdf_def Let_def N_def[symmetric] k_def[symmetric] s_def[symmetric] st1_def[symmetric]
    by (simp split: sum.splits option.splits)
  show ?thesis
  proof (cases "render_pdf_page_as_image W pdf_path cur")
    case (Inl e)
    with eq cur show ?thesis
      unfolding N_def[symmetric] k_def[symmetric]
      by (intro exI[of _ "st1(k \<mapsto> cur)"] exI[of _ "[Page_caption p0 N, Render_warning, Pdf_link pdf_path]"]
            exI[of _ cur] exI[of _ p0]) simp
  next
    case (Inr r)
    show ?thesis
    proof (cases r)
      case None
      with Inr eq cur show ?thesis
        unfolding N_def[symmetric] k_def[symmetric]
        by (intro exI[of _ "st1(k \<mapsto> cur)"] exI[of _ "[Page_caption p0 N, Render_warning, Pdf_link pdf_path]"]
              exI[of _ cur] exI[of _ p0]) simp
    next
      case (Some img)
      with Inr eq cur show ?thesis
        unfolding N_def[symmetric] k_def[symmetric]
        by (intro exI[of _ st4] exI[of _ "[Page_caption p0 N, Page_image img pdf_path cur N]"]
              exI[of _ cur] exI[of _ p0]) simp
    qed
  qed
qed

lemma render_pdf_page_as_image_cases:
  "(render_pdf_page_as_image W pdf_path page = Inr (Some img)
      \<longleftrightarrow> (\<exists>rest. convert_from_path W pdf_path 120 page page (ascii ''png'') = Inr (img # rest)))
   \<and> (render_pdf_page_as_image W pdf_path page = Inr None
      \<longleftrightarrow> convert_from_path W pdf_path 120 page page (ascii ''png'') = Inr [])
   \<and> (render_pdf_page_as_image W pdf_path page = Inl e
      \<longleftrightarrow> convert_from_path W pdf_path 120 page page (ascii ''png'') = Inl e)"
  by (auto simp: render_pdf_page_as_image_def split: sum.splits list.splits)


text \<open>
  C8: the page renderer asks the rasteriser for exactly the given page at 120 dpi and
  returns its first image, or no image when the rasteriser returns none; an error of
  the rasteriser leaves the renderer as an error. The PDF display never ends in an
  error: for an existing document it shows the caption and then either the image of
  the current page, or, when rendering that page fails or yields nothing, the warning
  followed by the link to the file, with the current page kept in the session state.
\<close>

theorem render_failure_shows_fallback:
  fixes W :: "'img world"
  shows
    "((render_pdf_page_as_image W pdf_path page = Inr (Some img))
        = (\<exists>rest. convert_from_path W pdf_path 120 page page (ascii ''png'') = Inr (img # rest)))
     \<and> ((render_pdf_page_as_image W pdf_path page = Inr None)
        = (convert_from_path W pdf_path 120 page page (ascii ''png'') = Inr []))
     \<and> ((render_pdf_page_as_image W pdf_path page = Inl e)
        = (convert_from_path W pdf_path 120 page page (ascii ''png'') = Inl e))
     \<and> (\<exists>st' shown. render_pdf W pdf_path state_key clicked st = Inr (st', shown))
     \<and> (path_exists W pdf_path \<longrightarrow>
          (\<exists>st' shown cur p0.
             render_pdf W pdf_path state_key clicked st = Inr (st', shown)
             \<and> 1 \<le> cur \<and> cur \<le> get_pdf_page_count W pdf_path
             \<and> (case render_pdf_page_as_image W pdf_path cur of
                   Inr (Some img) \<Rightarrow>
                     shown = [Page_caption p0 (get_pdf_page_count W pdf_path),
                              Page_image img pdf_path cur (get_pdf_page_count W pdf_path)]
                 | _ \<Rightarrow>
                     shown = [Page_caption p0 (get_pdf_page_count W pdf_path),
                              Render_warning, Pdf_link pdf_path]
                     \<and> st' (ascii ''pdf_page_'' @ state_key) = Some cur)))"
  using render_pdf_page_as_image_cases[of W pdf_path page img e]
    render_pdf_never_raises[of W pdf_path state_key clicked st]
    render_pdf_shows[of W pdf_path state_key clicked st]
  by blast

lemma example_failing_page_count: "get_pdf_page_count failing_world path = 1"
  by (simp add: get_pdf_page_count_def failing_world_def)

lemma example_failing_section_page: "find_section_page failing_world path label = 1"
  by (simp add: find_section_page_def failing_world_def)

theorem render_failure_shows_fallback_witness:
  "path_exists failing_world (ascii ''a.pdf'')
   \<and> render_pdf_page_as_image failing_world (ascii ''a.pdf'') 1 = Inl (ToolError (ascii ''poppler''))
   \<and> render_pdf failing_world (ascii ''a.pdf'') (ascii ''a'') (\<lambda>b. False) Map.empty
       = Inr ([ascii ''pdf_page_a'' \<mapsto> 1], [Page_caption 1 1, Render_warning, Pdf_link (ascii ''a.pdf'')])
   \<and> render_pdf_page_as_image example_world (ascii ''a.pdf'') 2 = Inr (Some 2)
   \<and> render_pdf example_world (ascii ''a.pdf'') (ascii ''a'') (\<lambda>b. False) Map.empty
       = Inr ([ascii ''pdf_page_a'' \<mapsto> 2], [Page_caption 2 3, Page_image 2 (ascii ''a.pdf'') 2 3])
   \<and> (\<exists>st' shown cur p0.
         render_pdf failing_world (ascii ''a.pdf'') (ascii ''a'') (\<lambda>b. False) Map.empty = Inr (st', shown)
         \<and> 1 \<le> cur \<and> cur \<le> 1
         \<and> (case render_pdf_page_as_image failing_world (ascii ''a.pdf'') cur of
               Inr (Some img) \<Rightarrow>
                 shown = [Page_caption p0 1, Page_image img (ascii ''a.pdf'') cur 1]
             | _ \<Rightarrow>
                 shown = [Page_caption p0 1, Render_warning, Pdf_link (ascii ''a.pdf'')]
                 \<and> st' (ascii ''pdf_page_a'') = Some cur))"
proof -
  have ex: "path_exists failing_world (ascii ''a.pdf'')"
    by (simp add: failing_world_def example_world_def)
  have r1: "render_pdf_page_as_image failing_world (ascii ''a.pdf'') 1 = Inl (ToolError (ascii ''poppler''))"
    by (simp add: render_pdf_page_as_image_def failing_world_def)
  have r2: "render_pdf_page_as_image example_world (ascii ''a.pdf'') 2 = Inr (Some 2)"
    by (simp add: render_pdf_page_as_image_def example_world_def)
  have k: "ascii ''pdf_page_'' @ ascii ''a'' = ascii ''pdf_page_a''" by (simp add: ascii_def)
  have f: "render_pdf failing_world (ascii ''a.pdf'') (ascii ''a'') (\<lambda>b. False) Map.empty
       = Inr ([ascii ''pdf_page_a'' \<mapsto> 1], [Page_caption 1 1, Render_warning, Pdf_link (ascii ''a.pdf'')])"
    using ex r1
    by (simp add: render_pdf_def example_failing_page_count example_failing_section_page
        render_page_control_def k)
  have g: "render_pdf example_world (ascii ''a.pdf'') (ascii ''a'') (\<lambda>b. False) Map.empty
       = Inr ([ascii ''pdf_page_a'' \<mapsto> 2], [Page_caption 2 3, Page_image 2 (ascii ''a.pdf'') 2 3])"
    using r2
    by (simp add: render_pdf_def example_page_count example_section_page
        render_page_control_def k) (simp add: example_world_def)
  note t = render_failure_shows_fallback[where W = failing_world and pdf_path = "ascii ''a.pdf''"
      and state_key = "ascii ''a''" and clicked = "\<lambda>b. False" and st = Map.empty,
      THEN conjunct2, THEN conjunct2, THEN conjunct2, THEN conjunct2, rule_format, OF ex]
  have h: "\<exists>st' shown cur p0.
         render_pdf failing_world (ascii ''a.pdf'') (ascii ''a'') (\<lambda>b. False) Map.empty = Inr (st', shown)
         \<and> 1 \<le> cur \<and> cur \<le> 1
         \<and> (case render_pdf_page_as_image failing_world (ascii ''a.pdf'') cur of
               Inr (Some img) \<Rightarrow>
                 shown = [Page_caption p0 1, Page_image img (ascii ''a.pdf'') cur 1]
             | _ \<Rightarrow>
                 shown = [Page_caption p0 1, Render_warning, Pdf_link (ascii ''a.pdf'')]
                 \<and> st' (ascii ''pdf_page_a'') = Some cur)"
    using t unfolding example_failing_page_count k .
  from ex r1 f r2 g h show ?thesis by blast
qed

section \<open>Strings and tags\<close>

lemma strip_Nil [simp]: "strip [] = []"
  by (simp add: strip_def)

lemma strip_ends:
  assumes "strip s \<noteq> []"
  shows "\<not> isspace (hd (strip s))" and "\<not> isspace (last (strip s))"
proof -
  define t where "t = dropWhile isspace s"
  have st: "strip s = rev (dropWhile isspace (rev t))" by (simp add: strip_def t_def)
  with assms have tne: "t \<noteq> []" by auto
  then have hdt: "\<not> isspace (hd t)" unfolding t_def by (simp add: hd_dropWhile)
  from assms st have ne: "dropWhile isspace (rev t) \<noteq> []" by simp
  then have "\<not> isspace (hd (dropWhile isspace (rev t)))" by (simp add: hd_dropWhile)
  with ne st show "\<not> isspace (last (strip s))" by (simp add: last_rev)
  have "\<exists>u. t = strip s @ u"
  proof -
    have "rev t = takeWhile isspace (rev t) @ dropWhile isspace (rev t)" by simp
    then have "t = rev (dropWhile isspace (rev t)) @ rev (takeWhile isspace (rev t))"
      by (metis rev_append rev_rev_ident)
    with st show ?thesis by auto
  qed
  then obtain u where "t = strip s @ u" ..
  with assms have "hd t = hd (strip s)" by (metis hd_append2)
  with hdt show "\<not> isspace (hd (strip s))" by simp
qed

lemma strip_id:
  assumes "s \<noteq> []" and "\<not> isspace (hd s)" and "\<not> isspace (last s)"
  shows "strip s = s"
proof -
  from assms have a: "dropWhile isspace s = s" by (cases s) auto
  from assms have "rev s \<noteq> []" "\<not> isspace (hd (rev s))" by (simp_all add: hd_rev)
  then have "dropWhile isspace (rev s) = rev s" by (cases "rev s") auto
  with a show ?thesis by (simp add: strip_def)
qed

lemma strip_strip [simp]: "strip (strip s) = strip s"
proof (cases "strip s = []")
  case True
  then show ?thesis by simp
next
  case False
  with strip_ends[OF False] show ?thesis by (intro strip_id)
qed

lemma strip_hd:
  assumes "s \<noteq> []" and "\<not> isspace (hd s)"
  shows "strip s \<noteq> []" and "hd (strip s) = hd s"
proof -
  from assms have a: "dropWhile isspace s = s" by (cases s) auto
  obtain c cs where s: "s = c # cs" using assms by (cases s) auto
  have "rev s = takeWhile isspace (rev s) @ dropWhile isspace (rev s)" by simp
  then have e: "s = rev (dropWhile isspace (rev s)) @ rev (takeWhile isspace (rev s))"
    by (metis rev_append rev_rev_ident)
  have ne: "dropWhile isspace (rev s) \<noteq> []"
  proof
    assume "dropWhile isspace (rev s) = []"
    then have "\<forall>x\<in>set (rev s). isspace x" by simp
    with s assms(2) show False by simp
  qed
  with a show "strip s \<noteq> []" by (simp add: strip_def)
  from ne e have "hd s = hd (rev (dropWhile isspace (rev s)))"
    by (metis hd_append2 rev_is_Nil_conv)
  with a show "hd (strip s) = hd s" by (simp add: strip_def)
qed


lemma split_on_nonempty: "split_on sep s \<noteq> []"
  by (induction s) (auto split: list.splits)

lemma split_on_no_sep: "seg \<in> set (split_on sep s) \<Longrightarrow> sep \<notin> set seg"
  by (induction s arbitrary: seg) (auto split: if_splits list.splits)

lemma join_Cons: "ps \<noteq> [] \<Longrightarrow> join sep (p # ps) = p @ sep @ join sep ps"
  by (cases ps) auto

lemma join_split_on: "join [sep] (split_on sep s) = s"
proof (induction s)
  case Nil
  then show ?case by simp
next
  case (Cons c s)
  show ?case
  proof (cases "c = sep")
    case True
    with Cons show ?thesis by (simp add: join_Cons split_on_nonempty)
  next
    case False
    obtain w ws where ws: "split_on sep s = w # ws"
      using split_on_nonempty[of sep s] by (cases "split_on sep s") auto
    with Cons False show ?thesis by (cases ws) auto
  qed
qed

lemma tag_parts_alt: "tag_parts raw_tags = filter (\<lambda>p. p \<noteq> []) (map strip (split_on 59 raw_tags))"
  by (simp add: tag_parts_def filter_map o_def)

lemma tag_parts_stripped: "p \<in> set (tag_parts raw_tags) \<Longrightarrow> p \<noteq> [] \<and> strip p = p"
  by (auto simp: tag_parts_def)

lemma render_tags_chips:
  "(render_tags raw_tags :: 'img display list) =
     (if tag_parts raw_tags = [] then []
      else [Markdown (ascii ''**'' @ label_ru (ascii ''tags'') @ ascii '':**  ''
                      @ concat (map (\<lambda>i. tag_chip i (tag_parts raw_tags ! i))
                                  [0 ..< length (tag_parts raw_tags)]))])"
proof -
  have "map (\<lambda>(idx, part). tag_chip idx part) (zip [0 ..< length ps] ps)
          = map (\<lambda>i. tag_chip i (ps ! i)) [0 ..< length ps]" for ps :: "ustr list"
    by (rule nth_equalityI) auto
  then show ?thesis by (simp add: render_tags_def Let_def)
qed

lemma example_tag_parts: "tag_parts (ascii ''A; B ; ;C'') = [ascii ''A'', ascii ''B'', ascii ''C'']"
  by (simp add: tag_parts_def ascii_def strip_def isspace_def)

text \<open>
C5: splitting the tag string at the semicolons loses nothing (joining the segments with
  semicolons gives the string back, and no segment holds a semicolon); the chips are the
  stripped segments that are not empty, in their order, so each chip is non-empty and has
  no white space at its ends; the renderer shows nothing when there is no chip and
  otherwise one line with one span per chip, in that order. For \<open>A; B ; ;C\<close> the chips
  are A, B and C.
\<close>

theorem tag_chips_are_stripped_segments:
  "join [59] (split_on 59 raw_tags) = raw_tags
   \<and> (\<forall>seg\<in>set (split_on 59 raw_tags). 59 \<notin> set seg)
   \<and> tag_parts raw_tags = filter (\<lambda>p. p \<noteq> []) (map strip (split_on 59 raw_tags))
   \<and> (\<forall>p\<in>set (tag_parts raw_tags). p \<noteq> [] \<and> strip p = p)
   \<and> (render_tags raw_tags :: 'img display list) =
       (if tag_parts raw_tags = [] then []
        else [Markdown (ascii ''**'' @ label_ru (ascii ''tags'') @ ascii '':**  ''
                        @ concat (map (\<lambda>i. tag_chip i (tag_parts raw_tags ! i))
                                    [0 ..< length (tag_parts raw_tags)]))])
   \<and> tag_parts (ascii ''A; B ; ;C'') = [ascii ''A'', ascii ''B'', ascii ''C'']"
  using join_split_on[of 59 raw_tags] split_on_no_sep[of _ 59 raw_tags] tag_parts_alt[of raw_tags]
    tag_parts_stripped[of _ raw_tags] render_tags_chips[of raw_tags, where ?'img = 'img]
    example_tag_parts
  by blast

theorem tag_chips_are_stripped_segments_witness:
  "split_on 59 (ascii ''A; B ; ;C'') = [ascii ''A'', ascii '' B '', ascii '' '', ascii ''C'']
   \<and> 59 \<notin> set (ascii '' B '')
   \<and> ascii ''B'' \<in> set (tag_parts (ascii ''A; B ; ;C''))
   \<and> strip (ascii ''B'') = ascii ''B''
   \<and> tag_parts (ascii ''A; B ; ;C'') = [ascii ''A'', ascii ''B'', ascii ''C'']
   \<and> (render_tags (ascii ''A; B ; ;C'') :: unit display list) =
       [Markdown (ascii ''**'' @ label_ru (ascii ''tags'') @ ascii '':**  ''
                  @ tag_chip 0 (ascii ''A'') @ tag_chip 1 (ascii ''B'') @ tag_chip 2 (ascii ''C''))]"
proof -
  note t = tag_chips_are_stripped_segments[where raw_tags = "ascii ''A; B ; ;C''" and ?'img = unit]
  have s: "split_on 59 (ascii ''A; B ; ;C'') = [ascii ''A'', ascii '' B '', ascii '' '', ascii ''C'']"
    by (simp add: ascii_def)
  from t have seg: "\<forall>seg\<in>set (split_on 59 (ascii ''A; B ; ;C'')). 59 \<notin> set seg" by blast
  from t have parts: "tag_parts (ascii ''A; B ; ;C'') = [ascii ''A'', ascii ''B'', ascii ''C'']" by blast
  from t have st: "\<forall>p\<in>set (tag_parts (ascii ''A; B ; ;C'')). p \<noteq> [] \<and> strip p = p" by blast
  from t have r: "(render_tags (ascii ''A; B ; ;C'') :: unit display list) =
       (if tag_parts (ascii ''A; B ; ;C'') = [] then []
        else [Markdown (ascii ''**'' @ label_ru (ascii ''tags'') @ ascii '':**  ''
                        @ concat (map (\<lambda>i. tag_chip i (tag_parts (ascii ''A; B ; ;C'') ! i))
                                    [0 ..< length (tag_parts (ascii ''A; B ; ;C''))]))])" by blast
  have up: "[0 ..< 3] = [0, 1, 2]" by (simp add: upt_rec)
  from seg s have a: "59 \<notin> set (ascii '' B '')" by simp
  from parts have b: "ascii ''B'' \<in> set (tag_parts (ascii ''A; B ; ;C''))" by simp
  with st have c: "strip (ascii ''B'') = ascii ''B''" by blast
  from r have d: "(render_tags (ascii ''A; B ; ;C'') :: unit display list) =
       [Markdown (ascii ''**'' @ label_ru (ascii ''tags'') @ ascii '':**  ''
                  @ tag_chip 0 (ascii ''A'') @ tag_chip 1 (ascii ''B'') @ tag_chip 2 (ascii ''C''))]"
    unfolding parts by (simp add: up numeral_2_eq_2)
  from s a b c parts d show ?thesis by blast
qed

section \<open>The duration humanizer is idempotent\<close>

lemma show_nat_hd: "show_nat n \<noteq> [] \<and> 48 \<le> hd (show_nat n) \<and> hd (show_nat n) \<le> 57"
proof (induction n rule: show_nat.induct)
  case (1 n)
  show ?case
  proof (cases "n < 10")
    case True
    then show ?thesis by (simp add: show_nat.simps[of n])
  next
    case False
    with 1 show ?thesis by (simp add: show_nat.simps[of n])
  qed
qed

lemma unit_part_hd:
  "p \<in> set (unit_part n abbr) \<Longrightarrow> p \<noteq> [] \<and> 48 \<le> hd p \<and> hd p \<le> 57"
  using show_nat_hd[of n] by (auto simp: unit_part_def split: if_splits)

lemma hd_join: "ps \<noteq> [] \<Longrightarrow> hd ps \<noteq> [] \<Longrightarrow> join sep ps \<noteq> [] \<and> hd (join sep ps) = hd (hd ps)"
  by (induction sep ps rule: join.induct) auto

lemma digit_first_no_match:
  assumes "s \<noteq> []" and "48 \<le> hd s" and "hd s \<le> 57"
  shows "duration_fullmatch U (strip s) = None"
proof -
  from assms have "\<not> isspace (hd s)" by (auto simp: isspace_def)
  from strip_hd[OF assms(1) this] assms obtain c cs where "strip s = c # cs" "c \<noteq> 80"
    by (cases "strip s") auto
  then show ?thesis by (simp add: duration_fullmatch_def)
qed

lemma humanize_changed:
  assumes "humanize_iso_duration U val \<noteq> val"
  shows "humanize_iso_duration U val \<noteq> [] \<and> 48 \<le> hd (humanize_iso_duration U val)
         \<and> hd (humanize_iso_duration U val) \<le> 57"
proof -
  from assms obtain y m w d where
    r: "humanize_iso_duration U val
          = join [32] (unit_part (group_int U y) [1075, 46]
                     @ unit_part (group_int U m) [1084, 1077, 1089, 46]
                     @ unit_part (group_int U w) [1085, 1077, 1076, 46]
                     @ unit_part (group_int U d) [1076, 1085, 46])"
    and ne: "unit_part (group_int U y) [1075, 46]
                     @ unit_part (group_int U m) [1084, 1077, 1089, 46]
                     @ unit_part (group_int U w) [1085, 1077, 1076, 46]
                     @ unit_part (group_int U d) [1076, 1085, 46] \<noteq> []"
    by (auto simp: humanize_iso_duration_def Let_def split: option.splits if_splits)
  define ps where "ps = unit_part (group_int U y) [1075, 46]
                     @ unit_part (group_int U m) [1084, 1077, 1089, 46]
                     @ unit_part (group_int U w) [1085, 1077, 1076, 46]
                     @ unit_part (group_int U d) [1076, 1085, 46]"
  have all: "\<forall>p\<in>set ps. p \<noteq> [] \<and> 48 \<le> hd p \<and> hd p \<le> 57"
    unfolding ps_def using unit_part_hd by auto
  from ne have "ps \<noteq> []" by (simp add: ps_def)
  then have "hd ps \<in> set ps" by simp
  with all have h: "hd ps \<noteq> [] \<and> 48 \<le> hd (hd ps) \<and> hd (hd ps) \<le> 57" by blast
  with hd_join[OF \<open>ps \<noteq> []\<close>, of "[32]"] r show ?thesis by (simp add: ps_def)
qed

text \<open>
C10: the duration humanizer is idempotent on every string. A result that differs from
  the input begins with a decimal digit, so it does not match the pattern and is returned
  unchanged by a second call; every other result is the input itself.
\<close>

theorem humanize_iso_duration_idempotent:
  "humanize_iso_duration U (humanize_iso_duration U val) = humanize_iso_duration U val"
proof (cases "humanize_iso_duration U val = val")
  case True
  then show ?thesis by simp
next
  case False
  from humanize_changed[OF False] digit_first_no_match[of "humanize_iso_duration U val" U]
  have "duration_fullmatch U (strip (humanize_iso_duration U val)) = None" by blast
  then show ?thesis by (simp add: humanize_iso_duration_def[of U "humanize_iso_duration U val"])
qed

section \<open>The duration humanizer\<close>

lemma opt_unit_sound:
  "opt_unit U letter s = (g, rest) \<Longrightarrow> s = unit_text g letter @ rest \<and> digit_run U g"
proof -
  assume a: "opt_unit U letter s = (g, rest)"
  have td: "takeWhile (is_digit U) s @ dropWhile (is_digit U) s = s" by simp
  have all: "list_all (is_digit U) (takeWhile (is_digit U) s)"
    by (simp add: list_all_iff) (meson set_takeWhileD)
  show ?thesis
  proof (cases "dropWhile (is_digit U) s")
    case Nil
    with a show ?thesis by (simp add: opt_unit_def unit_text_def digit_run_def)
  next
    case (Cons c r)
    show ?thesis
    proof (cases "takeWhile (is_digit U) s \<noteq> [] \<and> c = letter")
      case True
      with a Cons have g: "g = Some (takeWhile (is_digit U) s)" and r: "rest = r"
        by (simp_all add: opt_unit_def)
      from td Cons True have "s = takeWhile (is_digit U) s @ [letter] @ r" by simp
      with g r all True show ?thesis by (simp add: unit_text_def digit_run_def)
    next
      case False
      with a Cons have "g = None" "rest = s" by (auto simp: opt_unit_def)
      then show ?thesis by (simp add: unit_text_def digit_run_def)
    qed
  qed
qed

lemma duration_fullmatch_sound:
  assumes "duration_fullmatch U s = Some (y, m, w, d)"
  shows "s = duration_text y m w d \<and> digit_run U y \<and> digit_run U m \<and> digit_run U w \<and> digit_run U d"
proof -
  from assms obtain s0 where s: "s = 80 # s0"
    by (cases s) (auto simp: duration_fullmatch_def split: if_splits)
  obtain y' s1 where y: "opt_unit U 89 s0 = (y', s1)" by (cases "opt_unit U 89 s0")
  obtain m' s2 where m: "opt_unit U 77 s1 = (m', s2)" by (cases "opt_unit U 77 s1")
  obtain w' s3 where w: "opt_unit U 87 s2 = (w', s3)" by (cases "opt_unit U 87 s2")
  obtain d' s4 where d: "opt_unit U 68 s3 = (d', s4)" by (cases "opt_unit U 68 s3")
  from assms s y m w d have e: "s4 = []" "y' = y" "m' = m" "w' = w" "d' = d"
    by (auto simp: duration_fullmatch_def split: if_splits)
  from opt_unit_sound[OF y] opt_unit_sound[OF m] opt_unit_sound[OF w] opt_unit_sound[OF d] e s
  show ?thesis by (simp add: duration_text_def)
qed

lemma letters_not_digits [simp]:
  "\<not> is_digit U 89" "\<not> is_digit U 77" "\<not> is_digit U 87" "\<not> is_digit U 68"
  by (simp_all add: is_digit_def digit_val_def)

lemma opt_unit_Nil [simp]: "opt_unit U letter [] = (None, [])"
  by (simp add: opt_unit_def)

lemma opt_unit_hit:
  assumes "ds \<noteq> []" and "list_all (is_digit U) ds" and "\<not> is_digit U letter"
  shows "opt_unit U letter (ds @ letter # rest) = (Some ds, rest)"
proof -
  from assms have "takeWhile (is_digit U) (ds @ letter # rest) = ds"
    by (simp add: list_all_iff)
  moreover from assms have "dropWhile (is_digit U) (ds @ letter # rest) = letter # rest"
    by (simp add: list_all_iff dropWhile_append2)
  ultimately show ?thesis using assms by (simp add: opt_unit_def)
qed

lemma opt_unit_miss:
  assumes "list_all (is_digit U) ds" and "\<not> is_digit U other" and "other \<noteq> letter"
  shows "opt_unit U letter (ds @ other # rest) = (None, ds @ other # rest)"
proof -
  from assms have "dropWhile (is_digit U) (ds @ other # rest) = other # rest"
    by (simp add: list_all_iff dropWhile_append2)
  then show ?thesis using assms by (simp add: opt_unit_def)
qed

lemma duration_fullmatch_complete:
  assumes "digit_run U y" and "digit_run U m" and "digit_run U w" and "digit_run U d"
  shows "duration_fullmatch U (duration_text y m w d) = Some (y, m, w, d)"
  using assms
  by (cases y; cases m; cases w; cases d)
     (simp_all add: duration_fullmatch_def duration_text_def unit_text_def digit_run_def
        opt_unit_hit opt_unit_miss)


lemma digits_value_snoc:
  "digits_value U acc (ds @ [c]) = 10 * digits_value U acc ds + (case digit_val U c of Some d \<Rightarrow> d | None \<Rightarrow> 0)"
  by (induction ds arbitrary: acc) auto

lemma digits_value_show_nat: "digits_value U 0 (show_nat n) = n"
proof (induction n rule: show_nat.induct)
  case (1 n)
  show ?case
  proof (cases "n < 10")
    case True
    then show ?thesis by (simp add: show_nat.simps[of n] digit_val_def)
  next
    case False
    with 1 show ?thesis
      by (simp add: show_nat.simps[of n] digits_value_snoc digit_val_def)
  qed
qed

lemma unit_parts_filter:
  "unit_part (group_int U y) a @ unit_part (group_int U m) b
     @ unit_part (group_int U w) c @ unit_part (group_int U d) e
   = map (\<lambda>(g, abbr). show_nat (group_int U g) @ [32] @ abbr)
       (filter (\<lambda>(g, abbr). group_int U g \<noteq> 0) [(y, a), (m, b), (w, c), (d, e)])"
  by (simp add: unit_part_def)

lemma humanize_match:
  assumes "digit_run U y" "digit_run U m" "digit_run U w" "digit_run U d"
    and "strip val = duration_text y m w d"
  shows "humanize_iso_duration U val =
           (let parts = map (\<lambda>(g, abbr). show_nat (group_int U g) @ [32] @ abbr)
                          (filter (\<lambda>(g, abbr). group_int U g \<noteq> 0)
                             [(y, [1075, 46]), (m, [1084, 1077, 1089, 46]),
                              (w, [1085, 1077, 1076, 46]), (d, [1076, 1085, 46])])
            in if parts = [] then val else join [32] parts)"
proof -
  from duration_fullmatch_complete[OF assms(1-4)] assms(5)
  have "duration_fullmatch U (strip val) = Some (y, m, w, d)" by simp
  then show ?thesis
    unfolding humanize_iso_duration_def Let_def unit_parts_filter[symmetric] by simp
qed

lemma humanize_no_match:
  assumes "\<forall>y m w d. digit_run U y \<and> digit_run U m \<and> digit_run U w \<and> digit_run U d
             \<longrightarrow> strip val \<noteq> duration_text y m w d"
  shows "humanize_iso_duration U val = val"
proof (cases "duration_fullmatch U (strip val)")
  case None
  then show ?thesis by (simp add: humanize_iso_duration_def)
next
  case (Some g)
  obtain y m w d where "g = (y, m, w, d)" by (cases g)
  with Some duration_fullmatch_sound[of U "strip val" y m w d] assms show ?thesis by blast
qed

text \<open>
C4, as amended: when the string, with the white space at its ends removed, is a duration
  of the subset, the result names the units whose count is not zero (an absent count is
  zero), in the order years, months, weeks, days, each as the count in decimal, a space and
  the Russian abbreviation, joined by single spaces; when no count is other than zero the
  string is returned as it was given. A string that, stripped, is not in the subset is
  returned unchanged. The decimal text of a count denotes that count.
\<close>

theorem humanize_iso_duration_units:
  "(digit_run U y \<and> digit_run U m \<and> digit_run U w \<and> digit_run U d
      \<and> strip val = duration_text y m w d \<longrightarrow>
      humanize_iso_duration U val =
        (let parts = map (\<lambda>(g, abbr). show_nat (group_int U g) @ [32] @ abbr)
                       (filter (\<lambda>(g, abbr). group_int U g \<noteq> 0)
                          [(y, [1075, 46]), (m, [1084, 1077, 1089, 46]),
                           (w, [1085, 1077, 1076, 46]), (d, [1076, 1085, 46])])
         in if parts = [] then val else join [32] parts))
   \<and> ((\<forall>y m w d. digit_run U y \<and> digit_run U m \<and> digit_run U w \<and> digit_run U d
          \<longrightarrow> strip val \<noteq> duration_text y m w d)
        \<longrightarrow> humanize_iso_duration U val = val)
   \<and> group_int U None = 0
   \<and> digits_value U 0 (show_nat n) = n"
  using humanize_match[of U y m w d val] humanize_no_match[of U val] digits_value_show_nat[of U n]
  by (simp add: group_int_def)

lemmas eval_humanize =
  humanize_iso_duration_def duration_fullmatch_def opt_unit_def is_digit_def digit_val_def
  strip_def isspace_def group_int_def unit_part_def show_nat.simps ascii_def example_ucd_def

text \<open>
The claim as stated fails where a count is present and zero: in \<open>P0Y2M\<close> the years are
  present, yet the result is the months alone and has no years abbreviation; and \<open>P0D\<close>,
  whose days are present, is returned unchanged.
\<close>

theorem zero_count_is_left_out:
  "duration_fullmatch example_ucd (strip (ascii ''P0Y2M''))
     = Some (Some (ascii ''0''), Some (ascii ''2''), None, None)
   \<and> humanize_iso_duration example_ucd (ascii ''P0Y2M'') = [50, 32, 1084, 1077, 1089, 46]
   \<and> \<not> contains (humanize_iso_duration example_ucd (ascii ''P0Y2M'')) [1075, 46]
   \<and> humanize_iso_duration example_ucd (ascii ''P0D'') = ascii ''P0D''"
  by (simp add: eval_humanize)


theorem humanize_iso_duration_units_witness:
  "strip (ascii '' P1Y2M10D '')
     = duration_text (Some (ascii ''1'')) (Some (ascii ''2'')) None (Some (ascii ''10''))
   \<and> digit_run example_ucd (Some (ascii ''10''))
   \<and> humanize_iso_duration example_ucd (ascii '' P1Y2M10D '')
       = ascii ''1 '' @ [1075, 46] @ ascii '' 2 '' @ [1084, 1077, 1089, 46]
         @ ascii '' 10 '' @ [1076, 1085, 46]
   \<and> duration_fullmatch example_ucd (strip (ascii ''PT1H'')) = None
   \<and> humanize_iso_duration example_ucd (ascii ''PT1H'') = ascii ''PT1H''"
proof -
  note t1 = humanize_iso_duration_units[where U = example_ucd and y = "Some (ascii ''1'')"
      and m = "Some (ascii ''2'')" and w = None and d = "Some (ascii ''10'')"
      and val = "ascii '' P1Y2M10D ''", THEN conjunct1, rule_format]
  note t2 = humanize_iso_duration_units[where U = example_ucd and val = "ascii ''PT1H''",
      THEN conjunct2, THEN conjunct1, THEN mp]
  have s: "strip (ascii '' P1Y2M10D '')
     = duration_text (Some (ascii ''1'')) (Some (ascii ''2'')) None (Some (ascii ''10''))"
    by (simp add: strip_def isspace_def duration_text_def unit_text_def ascii_def)
  have runs: "digit_run example_ucd (Some (ascii ''1''))" "digit_run example_ucd (Some (ascii ''2''))"
    "digit_run example_ucd None" "digit_run example_ucd (Some (ascii ''10''))"
    by (simp_all add: digit_run_def is_digit_def digit_val_def ascii_def)
  have "humanize_iso_duration example_ucd (ascii '' P1Y2M10D '') =
        (let parts = map (\<lambda>(g, abbr). show_nat (group_int example_ucd g) @ [32] @ abbr)
                       (filter (\<lambda>(g, abbr). group_int example_ucd g \<noteq> 0)
                          [(Some (ascii ''1''), [1075, 46]), (Some (ascii ''2''), [1084, 1077, 1089, 46]),
                           (None, [1085, 1077, 1076, 46]), (Some (ascii ''10''), [1076, 1085, 46])])
         in if parts = [] then ascii '' P1Y2M10D '' else join [32] parts)"
    by (rule t1) (use s runs in simp)
  then have h1: "humanize_iso_duration example_ucd (ascii '' P1Y2M10D '')
       = ascii ''1 '' @ [1075, 46] @ ascii '' 2 '' @ [1084, 1077, 1089, 46]
         @ ascii '' 10 '' @ [1076, 1085, 46]"
    by (simp add: group_int_def digit_val_def show_nat.simps ascii_def)
  have nm: "duration_fullmatch example_ucd (strip (ascii ''PT1H'')) = None"
    by (simp add: eval_humanize)
  have "\<forall>y m w d. digit_run example_ucd y \<and> digit_run example_ucd m \<and> digit_run example_ucd w
            \<and> digit_run example_ucd d \<longrightarrow> strip (ascii ''PT1H'') \<noteq> duration_text y m w d"
    using nm duration_fullmatch_complete[of example_ucd] by fastforce
  then have h2: "humanize_iso_duration example_ucd (ascii ''PT1H'') = ascii ''PT1H''"
    by (rule t2)
  from s runs(4) h1 nm h2 show ?thesis by blast
qed

section \<open>The selection list\<close>

lemma keep_first_others:
  "filter (\<lambda>n. \<not> mentions_prednisolone U n) (keep_first_prednisolone U kept names)
     = filter (\<lambda>n. \<not> mentions_prednisolone U n) names"
  by (induction names arbitrary: kept) auto

lemma keep_first_mentions:
  "filter (mentions_prednisolone U) (keep_first_prednisolone U kept names)
     = (if kept then [] else take 1 (filter (mentions_prednisolone U) names))"
  by (induction names arbitrary: kept) auto

lemma keep_first_subset: "set (keep_first_prednisolone U kept names) \<subseteq> set names"
  by (induction names arbitrary: kept) auto

lemma keep_first_sorted: "sorted names \<Longrightarrow> sorted (keep_first_prednisolone U kept names)"
proof (induction names arbitrary: kept)
  case Nil
  then show ?case by simp
next
  case (Cons n names)
  then have "sorted (keep_first_prednisolone U k names)" for k by simp
  moreover have "\<forall>y\<in>set (keep_first_prednisolone U k names). n \<le> y" for k
    using Cons.prems keep_first_subset[of U k names] by auto
  ultimately show ?case by simp
qed

lemma list_result_files_props:
  "filter (\<lambda>n. \<not> mentions_prednisolone U n) (list_result_files U (Some names))
     = filter (\<lambda>n. \<not> mentions_prednisolone U n)
         (sort (filter (\<lambda>n. \<not> startswith n (ascii ''_'')) names))"
  "filter (mentions_prednisolone U) (list_result_files U (Some names))
     = take 1 (filter (mentions_prednisolone U)
         (sort (filter (\<lambda>n. \<not> startswith n (ascii ''_'')) names)))"
  "sorted (list_result_files U (Some names))"
  "set (list_result_files U (Some names)) \<subseteq> {n \<in> set names. \<not> startswith n (ascii ''_'')}"
  using keep_first_subset[of U False "sort (filter (\<lambda>n. \<not> startswith n (ascii ''_'')) names)"]
  by (auto simp: list_result_files_def keep_first_others keep_first_mentions keep_first_sorted)

lemma two_matching_one_other:
  assumes "mentions_prednisolone U a" "mentions_prednisolone U b" "\<not> mentions_prednisolone U c"
    and "a < b" and "distinct names" and "set names = {a, b, c}"
    and "\<not> startswith a (ascii ''_'')" "\<not> startswith b (ascii ''_'')" "\<not> startswith c (ascii ''_'')"
  shows "list_result_files U (Some names) = sort [a, c]"
proof -
  from assms have ne: "a \<noteq> c" "b \<noteq> c" "a \<noteq> b" by auto
  from assms have f: "filter (\<lambda>n. \<not> startswith n (ascii ''_'')) names = names"
    by (auto simp: filter_id_conv)
  have "sort names = sort [a, b, c]"
  proof (rule sorted_distinct_set_unique)
    show "distinct (sort names)" using assms by simp
    show "distinct (sort [a, b, c])" using ne by (simp del: sort_key_simps)
    show "set (sort names) = set (sort [a, b, c])" using assms by (simp del: sort_key_simps)
  qed (simp_all del: sort_key_simps)
  then have "list_result_files U (Some names) = keep_first_prednisolone U False (sort [a, b, c])"
    by (simp add: list_result_files_def f del: sort_key_simps)
  also have "\<dots> = sort [a, c]"
    using assms(1-4) ne by (auto simp: insort_is_Cons)
  finally show ?thesis .
qed


text \<open>
C6: without a results directory the selection list is empty. Otherwise the names that
  do not begin with an underscore are sorted, and of the sorted names those that do not
  mention prednisolone all stay, in their order, while of those that mention it (in any
  case) only the first stays; the list is sorted and holds no name beginning with an
  underscore. So for a listing of exactly two names that mention it and one that does
  not, the list is the first of the two, in sorted order, and the third name.
\<close>

theorem selection_list_keeps_first_match:
  "list_result_files U None = []
   \<and> filter (\<lambda>n. \<not> mentions_prednisolone U n) (list_result_files U (Some names))
       = filter (\<lambda>n. \<not> mentions_prednisolone U n)
           (sort (filter (\<lambda>n. \<not> startswith n (ascii ''_'')) names))
   \<and> filter (mentions_prednisolone U) (list_result_files U (Some names))
       = take 1 (filter (mentions_prednisolone U)
           (sort (filter (\<lambda>n. \<not> startswith n (ascii ''_'')) names)))
   \<and> sorted (list_result_files U (Some names))
   \<and> set (list_result_files U (Some names)) \<subseteq> {n \<in> set names. \<not> startswith n (ascii ''_'')}
   \<and> (mentions_prednisolone U a \<and> mentions_prednisolone U b \<and> \<not> mentions_prednisolone U c
        \<and> a < b \<and> distinct files \<and> set files = {a, b, c}
        \<and> \<not> startswith a (ascii ''_'') \<and> \<not> startswith b (ascii ''_'') \<and> \<not> startswith c (ascii ''_'')
        \<longrightarrow> list_result_files U (Some files) = sort [a, c])"
  using list_result_files_props[of U names] two_matching_one_other[of U a b c files]
  by (simp add: list_result_files_def)

theorem selection_list_keeps_first_match_witness:
  "mentions_prednisolone example_ucd
     ([1055, 1088, 1077, 1076, 1085, 1080, 1079, 1086, 1083, 1086, 1085] @ ascii ''2.json'')
   \<and> mentions_prednisolone example_ucd
       ([1087, 1088, 1077, 1076, 1085, 1080, 1079, 1086, 1083, 1086, 1085] @ ascii ''1.json'')
   \<and> \<not> mentions_prednisolone example_ucd (ascii ''a.json'')
   \<and> [1055, 1088, 1077, 1076, 1085, 1080, 1079, 1086, 1083, 1086, 1085] @ ascii ''2.json''
       < [1087, 1088, 1077, 1076, 1085, 1080, 1079, 1086, 1083, 1086, 1085] @ ascii ''1.json''
   \<and> list_result_files example_ucd
        (Some [[1087, 1088, 1077, 1076, 1085, 1080, 1079, 1086, 1083, 1086, 1085] @ ascii ''1.json'',
               ascii ''a.json'',
               [1055, 1088, 1077, 1076, 1085, 1080, 1079, 1086, 1083, 1086, 1085] @ ascii ''2.json''])
       = [ascii ''a.json'',
          [1055, 1088, 1077, 1076, 1085, 1080, 1079, 1086, 1083, 1086, 1085] @ ascii ''2.json'']"
proof -
  define a where "a = [1055, 1088, 1077, 1076, 1085, 1080, 1079, 1086, 1083, 1086, 1085] @ ascii ''2.json''"
  define b where "b = [1087, 1088, 1077, 1076, 1085, 1080, 1079, 1086, 1083, 1086, 1085] @ ascii ''1.json''"
  define c where "c = ascii ''a.json''"
  note t = selection_list_keeps_first_match[where U = example_ucd and a = a and b = b and c = c
      and files = "[b, c, a]", THEN conjunct2, THEN conjunct2, THEN conjunct2, THEN conjunct2,
      THEN conjunct2, rule_format]
  have ma: "mentions_prednisolone example_ucd a"
    by (simp add: a_def mentions_prednisolone_def example_ucd_def lower_basic_def ascii_def)
  have mb: "mentions_prednisolone example_ucd b"
    by (simp add: b_def mentions_prednisolone_def example_ucd_def lower_basic_def ascii_def)
  have mc: "\<not> mentions_prednisolone example_ucd c"
    by (simp add: c_def mentions_prednisolone_def example_ucd_def lower_basic_def ascii_def)
  have ab: "a < b" by (simp add: a_def b_def)
  have ca: "c < a" by (simp add: a_def c_def ascii_def)
  have d: "distinct [b, c, a]" "set [b, c, a] = {a, b, c}"
    using ab ca by (auto simp: a_def b_def c_def ascii_def)
  have u: "\<not> startswith a (ascii ''_'')" "\<not> startswith b (ascii ''_'')" "\<not> startswith c (ascii ''_'')"
    by (simp_all add: a_def b_def c_def ascii_def)
  have "list_result_files example_ucd (Some [b, c, a]) = sort [a, c]"
    by (rule t) (use ma mb mc ab d u in blast)
  moreover have "sort [a, c] = [c, a]" using ca by auto
  ultimately have "list_result_files example_ucd (Some [b, c, a]) = [c, a]" by simp
  with ma mb mc ab show ?thesis unfolding a_def b_def c_def by blast
qed

section \<open>Scalar lines\<close>

lemma KEY_LABELS_RU_distinct: "distinct (map fst KEY_LABELS_RU)"
  by (simp add: KEY_LABELS_RU_def ascii_def)

lemma label_ru_defined: "(key, label) \<in> set KEY_LABELS_RU \<Longrightarrow> label_ru key = label"
  using KEY_LABELS_RU_distinct by (simp add: label_ru_def)

lemma label_ru_undefined: "key \<notin> fst ` set KEY_LABELS_RU \<Longrightarrow> label_ru key = key"
proof -
  assume "key \<notin> fst ` set KEY_LABELS_RU"
  then have "map_of KEY_LABELS_RU key = None" by (simp add: map_of_eq_None_iff)
  then show ?thesis by (simp add: label_ru_def)
qed

lemma humanize_value_other:
  "key \<notin> {ascii ''courseDurationMin'', ascii ''courseDurationMax'', ascii ''courseDuration'',
            ascii ''intervalUnit''} \<Longrightarrow> humanize_value U key v = v"
  by (simp add: humanize_value_def)

text \<open>
C7, as amended: a scalar that is \<open>None\<close> or a blank string gives no output. Any other
  scalar under a key other than \<open>tags\<close> gives exactly one line: the label of the key, a
  colon, and the text of the value after \<open>humanize_value\<close>, in the markup of the source.
  The label is the Russian label when the table has the key and the key itself
  otherwise; \<open>humanize_value\<close> changes nothing except under the three duration keys and
  \<open>intervalUnit\<close>. Under the key \<open>tags\<close> the value goes to the tag renderer instead.
\<close>

theorem scalar_line_rendering:
  "render_scalar_line U key VNone = ([] :: 'img display list)
   \<and> (strip s = [] \<longrightarrow> render_scalar_line U key (VStr s) = ([] :: 'img display list))
   \<and> (v \<noteq> VNone \<and> \<not> (is_str v \<and> strip (py_str v) = []) \<and> key \<noteq> ascii ''tags'' \<longrightarrow>
        (render_scalar_line U key v :: 'img display list)
          = [Markdown (ascii ''<div class='dense-line'><span class='dense-key'>'' @ label_ru key
                       @ ascii '':</span> <span class='' @ [39]
                       @ (if key = ascii ''schemaDescription'' then ascii ''dense-value-regular''
                          else ascii ''dense-value'')
                       @ [39, 62] @ py_str (humanize_value U key v) @ ascii ''</span></div>'')])
   \<and> (v \<noteq> VNone \<and> \<not> (is_str v \<and> strip (py_str v) = []) \<and> key = ascii ''tags'' \<longrightarrow>
        (render_scalar_line U key v :: 'img display list) = render_tags (py_str v))
   \<and> ((key, label) \<in> set KEY_LABELS_RU \<longrightarrow> label_ru key = label)
   \<and> (key \<notin> fst ` set KEY_LABELS_RU \<longrightarrow> label_ru key = key)
   \<and> (key \<notin> {ascii ''courseDurationMin'', ascii ''courseDurationMax'', ascii ''courseDuration'',
                ascii ''intervalUnit''} \<longrightarrow> humanize_value U key v = v)"
proof (intro conjI impI)
  show "render_scalar_line U key VNone = ([] :: 'img display list)"
    by (simp add: render_scalar_line_def)
  show "render_scalar_line U key (VStr s) = ([] :: 'img display list)" if "strip s = []"
    using that by (simp add: render_scalar_line_def is_str_def py_str_def)
  show "(render_scalar_line U key v :: 'img display list)
          = [Markdown (ascii ''<div class='dense-line'><span class='dense-key'>'' @ label_ru key
                       @ ascii '':</span> <span class='' @ [39]
                       @ (if key = ascii ''schemaDescription'' then ascii ''dense-value-regular''
                          else ascii ''dense-value'')
                       @ [39, 62] @ py_str (humanize_value U key v) @ ascii ''</span></div>'')]"
    if "v \<noteq> VNone \<and> \<not> (is_str v \<and> strip (py_str v) = []) \<and> key \<noteq> ascii ''tags''"
    using that by (auto simp: render_scalar_line_def Let_def ascii_def)
  show "(render_scalar_line U key v :: 'img display list) = render_tags (py_str v)"
    if "v \<noteq> VNone \<and> \<not> (is_str v \<and> strip (py_str v) = []) \<and> key = ascii ''tags''"
    using that by (auto simp: render_scalar_line_def)
  show "label_ru key = label" if "(key, label) \<in> set KEY_LABELS_RU"
    using that by (rule label_ru_defined)
  show "label_ru key = key" if "key \<notin> fst ` set KEY_LABELS_RU"
    using that by (rule label_ru_undefined)
  show "humanize_value U key v = v"
    if "key \<notin> {ascii ''courseDurationMin'', ascii ''courseDurationMax'', ascii ''courseDuration'',
                ascii ''intervalUnit''}"
    using that by (rule humanize_value_other)
qed

text \<open>
The claim as stated fails under the key \<open>tags\<close>: the value \<open>;\<close> is a string that is
  not blank, and nothing is shown for it.
\<close>

theorem tags_value_without_segment_shows_nothing:
  "VStr (ascii '';'') \<noteq> VNone
   \<and> strip (py_str (VStr (ascii '';''))) \<noteq> []
   \<and> (render_scalar_line example_ucd (ascii ''tags'') (VStr (ascii '';'')) :: unit display list) = []"
  by (simp add: render_scalar_line_def render_tags_def tag_parts_def py_str_def is_str_def
      strip_def isspace_def ascii_def)


theorem scalar_line_rendering_witness:
  "(render_scalar_line example_ucd (ascii ''dose'') (VInt 5) :: unit display list)
     = [Markdown (ascii ''<div class='dense-line'><span class='dense-key'>'' @ [1044, 1086, 1079, 1072]
                  @ ascii '':</span> <span class='dense-value'>5</span></div>'')]
   \<and> (render_scalar_line example_ucd (ascii ''note'') (VStr (ascii ''twice'')) :: unit display list)
     = [Markdown (ascii ''<div class='dense-line'><span class='dense-key'>note:</span> ''
                  @ ascii ''<span class='dense-value'>twice</span></div>'')]
   \<and> (render_scalar_line example_ucd (ascii ''note'') (VStr (ascii ''  '')) :: unit display list) = []
   \<and> (render_scalar_line example_ucd (ascii ''tags'') (VStr (ascii ''A'')) :: unit display list)
     = render_tags (ascii ''A'')"
proof -
  note t = scalar_line_rendering[where U = example_ucd and ?'img = unit]
  have dose: "(ascii ''dose'', [1044, 1086, 1079, 1072]) \<in> set KEY_LABELS_RU"
    by (simp add: KEY_LABELS_RU_def)
  have note_key: "ascii ''note'' \<notin> fst ` set KEY_LABELS_RU"
    by (simp add: KEY_LABELS_RU_def ascii_def)
  from t[where key = "ascii ''dose''" and label = "[1044, 1086, 1079, 1072]"] dose
  have l1: "label_ru (ascii ''dose'') = [1044, 1086, 1079, 1072]" by blast
  from t[where key = "ascii ''note''"] note_key
  have l2: "label_ru (ascii ''note'') = ascii ''note''" by blast
  have o1: "ascii ''dose'' \<notin> {ascii ''courseDurationMin'', ascii ''courseDurationMax'',
              ascii ''courseDuration'', ascii ''intervalUnit''}"
    and o2: "ascii ''note'' \<notin> {ascii ''courseDurationMin'', ascii ''courseDurationMax'',
              ascii ''courseDuration'', ascii ''intervalUnit''}"
    by (simp_all add: ascii_def)
  from t[where key = "ascii ''dose''" and v = "VInt 5"] o1
  have h1: "humanize_value example_ucd (ascii ''dose'') (VInt 5) = VInt 5" by blast
  from t[where key = "ascii ''note''" and v = "VStr (ascii ''twice'')"] o2
  have h2: "humanize_value example_ucd (ascii ''note'') (VStr (ascii ''twice'')) = VStr (ascii ''twice'')"
    by blast
  have p1: "VInt 5 \<noteq> VNone \<and> \<not> (is_str (VInt 5) \<and> strip (py_str (VInt 5)) = [])
              \<and> ascii ''dose'' \<noteq> ascii ''tags''"
    by (simp add: is_str_def ascii_def)
  have p2: "VStr (ascii ''twice'') \<noteq> VNone
              \<and> \<not> (is_str (VStr (ascii ''twice'')) \<and> strip (py_str (VStr (ascii ''twice''))) = [])
              \<and> ascii ''note'' \<noteq> ascii ''tags''"
    by (simp add: py_str_def strip_def isspace_def ascii_def)
  have p3: "strip (ascii ''  '') = []" by (simp add: strip_def isspace_def ascii_def)
  have p4: "VStr (ascii ''A'') \<noteq> VNone
              \<and> \<not> (is_str (VStr (ascii ''A'')) \<and> strip (py_str (VStr (ascii ''A''))) = [])
              \<and> ascii ''tags'' = ascii ''tags''"
    by (simp add: py_str_def strip_def isspace_def ascii_def)
  from t[where key = "ascii ''dose''" and v = "VInt 5"] p1
  have r1: "(render_scalar_line example_ucd (ascii ''dose'') (VInt 5) :: unit display list)
     = [Markdown (ascii ''<div class='dense-line'><span class='dense-key'>'' @ [1044, 1086, 1079, 1072]
                  @ ascii '':</span> <span class='dense-value'>5</span></div>'')]"
    unfolding l1 h1 by (simp add: py_str_def show_int_def show_nat.simps ascii_def)
  from t[where key = "ascii ''note''" and v = "VStr (ascii ''twice'')"] p2
  have r2: "(render_scalar_line example_ucd (ascii ''note'') (VStr (ascii ''twice'')) :: unit display list)
     = [Markdown (ascii ''<div class='dense-line'><span class='dense-key'>note:</span> ''
                  @ ascii ''<span class='dense-value'>twice</span></div>'')]"
    unfolding l2 h2 by (simp add: py_str_def ascii_def)
  from t[where key = "ascii ''note''" and s = "ascii ''  ''"] p3
  have r3: "(render_scalar_line example_ucd (ascii ''note'') (VStr (ascii ''  '')) :: unit display list) = []"
    by blast
  from t[where key = "ascii ''tags''" and v = "VStr (ascii ''A'')"] p4
  have r4: "(render_scalar_line example_ucd (ascii ''tags'') (VStr (ascii ''A'')) :: unit display list)
     = render_tags (ascii ''A'')"
    by (simp add: py_str_def)
  from r1 r2 r3 r4 show ?thesis by blast
qed

end
